theory Spec2Isabelle
  imports Complex_Main "HOL-Library.Stream" "HOL-Library.Log_Nat"
begin

section \<open>The simulation core of main.py (an Asteroids clone on pygame)\<close>

text \<open>
  The theory embeds the game logic of \<^verbatim>\<open>src/main.py\<close>: the helper functions, the classes
  \<^verbatim>\<open>GameObject\<close>, \<^verbatim>\<open>Player\<close>, \<^verbatim>\<open>Asteroid\<close> and \<^verbatim>\<open>Bullet\<close>,
  \<^verbatim>\<open>reset_game\<close> and one iteration of the loop of \<^verbatim>\<open>main\<close>.

  Conventions of the embedding.
  \<^item> Python floats are idealised as real numbers, so rounding is not part of the model.
    The one exception is the float remainder of \<^verbatim>\<open>wrap_position\<close>, which is modelled a
    second time at IEEE binary64 precision (section ``binary64''), because its range
    depends on rounding.
  \<^item> Sprites are Python objects shared between sprite groups. The model keeps them in a
    store indexed by references (natural numbers, allocated in increasing order); a
    group is the list of its members' references in insertion order.
  \<^item> An exception is a value \<open>Inl e\<close> of the result type; a loop that may run forever
    returns \<open>None\<close>.
  \<^item> pygame itself (surfaces, rectangles, image transforms, the collision test) is not
    code of the repository: it is a parameter \<open>L\<close> of the model, and every theorem holds
    for every behaviour of it. Drawing is left out.
  \<^item> The random generator and the millisecond clock are infinite sequences of readings
    held in the state; every theorem holds for every sequence.
\<close>

subsection \<open>Configuration\<close>

definition SCREEN_WIDTH :: int where "SCREEN_WIDTH = 800"
definition SCREEN_HEIGHT :: int where "SCREEN_HEIGHT = 600"

subsection \<open>Python and pygame values\<close>

datatype error = KeyError | ValueError

type_synonym 'a result = "error + 'a"

type_synonym vec2 = "real \<times> real"

definition vadd :: "vec2 \<Rightarrow> vec2 \<Rightarrow> vec2" where
  "vadd u v = (fst u + fst v, snd u + snd v)"

definition vscale :: "vec2 \<Rightarrow> real \<Rightarrow> vec2" where
  "vscale v k = (fst v * k, snd v * k)"

definition vlength :: "vec2 \<Rightarrow> real" where
  "vlength v = sqrt ((fst v)\<^sup>2 + (snd v)\<^sup>2)"

definition distance_to :: "vec2 \<Rightarrow> vec2 \<Rightarrow> real" where
  "distance_to u v = sqrt ((fst v - fst u)\<^sup>2 + (snd v - snd u)\<^sup>2)"

text \<open>
  \<^verbatim>\<open>Vector2.scale_to_length\<close> raises ValueError on a vector it takes for the zero vector:
  one whose length is below the vector's epsilon, \<open>1e-6\<close>.
\<close>

definition VECTOR_EPSILON :: real where "VECTOR_EPSILON = 1 / 10 ^ 6"

definition scale_to_length :: "vec2 \<Rightarrow> real \<Rightarrow> vec2 result" where
  "scale_to_length v l =
     (if vlength v < VECTOR_EPSILON then Inl ValueError
      else Inr (vscale v (l / vlength v)))"

text \<open>Python's \<^verbatim>\<open>x % m\<close> on floats, for a divisor \<open>m > 0\<close>, over the reals.\<close>

definition py_mod :: "real \<Rightarrow> real \<Rightarrow> real" where
  "py_mod x m = x - m * of_int \<lfloor>x / m\<rfloor>"

text \<open>
  A surface is reduced to its size. A \<^verbatim>\<open>pygame.Rect\<close> has integer fields; the source
  reads only \<^verbatim>\<open>width\<close> itself.
\<close>

type_synonym surface = "int \<times> int"

record rect =
  x_left :: int
  y_top :: int
  width :: int
  height :: int

text \<open>
  The library, as far as the game logic calls it. \<open>ship_image\<close>, \<open>asteroid_image\<close> (by
  target size) and \<open>heart_image\<close> are the sprites as loaded and smooth-scaled by the
  three constructors; \<open>transform_rotate\<close> is \<^verbatim>\<open>pygame.transform.rotate\<close>;
  \<open>get_rect\<close> is \<^verbatim>\<open>Surface.get_rect(center=...)\<close>; \<open>rect_center\<close> and
  \<open>set_rect_center\<close> read and assign \<^verbatim>\<open>Rect.center\<close>; \<open>colliderect\<close> is the
  default collision test of \<^verbatim>\<open>pygame.sprite\<close>; \<open>vector_nonzero\<close> is the truth value
  of a \<^verbatim>\<open>Vector2\<close>, false for the zero vector (and, with a tolerance, possibly for
  vectors next to it).
\<close>

record pygame =
  ship_image :: surface
  asteroid_image :: "int \<Rightarrow> surface"
  heart_image :: surface
  transform_rotate :: "surface \<Rightarrow> real \<Rightarrow> surface"
  get_rect :: "surface \<Rightarrow> vec2 \<Rightarrow> rect"
  rect_center :: "rect \<Rightarrow> vec2"
  set_rect_center :: "rect \<Rightarrow> vec2 \<Rightarrow> rect"
  colliderect :: "rect \<Rightarrow> rect \<Rightarrow> bool"
  vector_nonzero :: "real \<times> real \<Rightarrow> bool"

text \<open>
  The random generator: a sequence of raw draws. \<^verbatim>\<open>random.random()\<close> is a 53-bit
  fraction, \<^verbatim>\<open>random.uniform(a, b)\<close> is \<open>a + (b - a) * random()\<close>, and
  \<^verbatim>\<open>random.randrange(n)\<close> is a number below \<open>n\<close>.
\<close>

type_synonym rng = "nat stream"

definition random_unit :: "nat \<Rightarrow> real" where
  "random_unit d = real (d mod 2 ^ 53) / 2 ^ 53"

definition uniform :: "real \<Rightarrow> real \<Rightarrow> rng \<Rightarrow> real \<times> rng" where
  "uniform a b g = (a + (b - a) * random_unit (shd g), stl g)"

definition randrange :: "nat \<Rightarrow> rng \<Rightarrow> int \<times> rng" where
  "randrange n g = (int (shd g mod n), stl g)"

subsection \<open>Helper functions\<close>

definition wrap_position :: "vec2 \<Rightarrow> vec2" where
  "wrap_position pos =
     (let x = py_mod (fst pos) (real_of_int SCREEN_WIDTH);
          y = py_mod (snd pos) (real_of_int SCREEN_HEIGHT)
      in (x, y))"

definition angle_to_vector :: "real \<Rightarrow> vec2" where
  "angle_to_vector angle_deg =
     (let rad = angle_deg * pi / 180 in (cos rad, - sin rad))"

subsection \<open>Game objects\<close>

record game_object =
  original_image :: surface
  sprite_image :: surface
  sprite_rect :: rect
  pos :: vec2
  velocity :: vec2
  angle :: real
  rotation_speed :: real

record player = game_object +
  thrust :: real
  max_speed :: real
  last_shot_time :: int
  shot_cooldown :: int

record asteroid = game_object +
  size_tier :: int

record bullet = game_object +
  lifetime :: int
  spawn_time :: int

text \<open>
  \<^verbatim>\<open>GameObject.__init__\<close>, always called with \<^verbatim>\<open>image=\<close>. A missing velocity and
  a velocity that is a false value in Python both give a fresh zero vector.
\<close>

definition GameObject_init ::
  "pygame \<Rightarrow> surface \<Rightarrow> vec2 \<Rightarrow> vec2 option \<Rightarrow> real \<Rightarrow> game_object" where
  "GameObject_init L img p vel ang =
     \<lparr> original_image = img,
       sprite_image = img,
       sprite_rect = get_rect L img p,
       pos = p,
       velocity = (case vel of None \<Rightarrow> (0, 0)
                   | Some v \<Rightarrow> if vector_nonzero L v then v else (0, 0)),
       angle = ang,
       rotation_speed = 0 \<rparr>"

definition GameObject_update ::
  "pygame \<Rightarrow> 'a game_object_scheme \<Rightarrow> 'a game_object_scheme" where
  "GameObject_update L self =
     (let s1 = (if rotation_speed self \<noteq> 0
                then let a = py_mod (angle self + rotation_speed self) 360;
                         img = transform_rotate L (original_image self) a
                     in self\<lparr> angle := a, sprite_image := img,
                              sprite_rect := get_rect L img (rect_center L (sprite_rect self)) \<rparr>
                else self);
          p = wrap_position (vadd (pos s1) (velocity s1))
      in s1\<lparr> pos := p, sprite_rect := set_rect_center L (sprite_rect s1) p \<rparr>)"

subsubsection \<open>Asteroid\<close>

definition scale_mult :: "int \<Rightarrow> real result" where
  "scale_mult sz =
     (if sz = 3 then Inr 1.0 else if sz = 2 then Inr 0.6 else if sz = 1 then Inr 0.35
      else Inl KeyError)"

definition Asteroid_init :: "pygame \<Rightarrow> vec2 \<Rightarrow> int \<Rightarrow> rng \<Rightarrow> (asteroid \<times> rng) result" where
  "Asteroid_init L p sz g =
     (case scale_mult sz of
        Inl e \<Rightarrow> Inl e
      | Inr m \<Rightarrow>
          let target_size = \<lfloor>100 * m\<rfloor>;
              img = asteroid_image L target_size;
              (ang, g1) = uniform 0 360 g;
              (u, g2) = uniform 0.5 2.0 g1;
              speed = u / real_of_int sz;
              vel = vscale (angle_to_vector ang) speed;
              base = GameObject_init L img p (Some vel) 0;
              (spin, g3) = uniform (-1) 1 g2
          in Inr (game_object.extend
                    (base\<lparr> sprite_rect := get_rect L img p, rotation_speed := spin \<rparr>)
                    (asteroid.fields sz), g3))"

subsection \<open>The session state\<close>

datatype GameState = START | PLAYING | PAUSED | GAME_OVER

datatype sprite_ref = PlayerRef | AsteroidRef nat | BulletRef nat

text \<open>
  The variables of \<^verbatim>\<open>main\<close> and the objects they refer to. \<open>ast_objs\<close> and
  \<open>bul_objs\<close> are the stores of the Asteroid and Bullet objects, \<open>next_ref\<close> the next
  free reference; every reference in a group is below \<open>next_ref\<close>. The single Player
  object is the value of the variable \<open>player\<close>. \<open>rng\<close> is the state of module
  \<^verbatim>\<open>random\<close>, \<open>ticks\<close> the readings \<^verbatim>\<open>pygame.time.get_ticks()\<close> will return.
\<close>

record world =
  ast_objs :: "nat \<Rightarrow> asteroid"
  bul_objs :: "nat \<Rightarrow> bullet"
  next_ref :: nat
  rng :: rng
  ticks :: "int stream"
  all_sprites :: "sprite_ref list"
  asteroids :: "nat list"
  bullets :: "nat list"
  player :: player
  score :: int
  state :: GameState
  running :: bool

text \<open>Evaluating \<^verbatim>\<open>Asteroid(pos, size)\<close>: the constructor runs and the object is stored.\<close>

definition new_Asteroid :: "pygame \<Rightarrow> vec2 \<Rightarrow> int \<Rightarrow> world \<Rightarrow> (nat \<times> world) result" where
  "new_Asteroid L p sz w =
     (case Asteroid_init L p sz (rng w) of
        Inl e \<Rightarrow> Inl e
      | Inr (a, g) \<Rightarrow>
          Inr (next_ref w,
               w\<lparr> ast_objs := (ast_objs w)(next_ref w := a),
                  next_ref := Suc (next_ref w),
                  rng := g \<rparr>))"

text \<open>
  The loop \<^verbatim>\<open>for _ in range(2)\<close> of \<^verbatim>\<open>break_apart\<close>, with the number of rounds left.
  Each round reads \<^verbatim>\<open>self.pos\<close> from the store again, as the source does.
\<close>

fun break_apart_loop ::
  "pygame \<Rightarrow> nat \<Rightarrow> nat \<Rightarrow> int \<Rightarrow> nat list \<Rightarrow> world \<Rightarrow> (nat list \<times> world) result" where
  "break_apart_loop L 0 self new_size fragments w = Inr (fragments, w)"
| "break_apart_loop L (Suc n) self new_size fragments w =
     (case new_Asteroid L (pos (ast_objs w self)) new_size w of
        Inl e \<Rightarrow> Inl e
      | Inr (fragment, w') \<Rightarrow> break_apart_loop L n self new_size (fragments @ [fragment]) w')"

definition break_apart :: "pygame \<Rightarrow> nat \<Rightarrow> world \<Rightarrow> (nat list \<times> world) result" where
  "break_apart L self w =
     (if size_tier (ast_objs w self) \<le> 1 then Inr ([], w)
      else let new_size = size_tier (ast_objs w self) - 1
           in break_apart_loop L 2 self new_size [] w)"

subsection \<open>Sprite groups\<close>

text \<open>
  \<^verbatim>\<open>Group.add\<close> keeps a sprite once; \<^verbatim>\<open>Sprite.kill\<close> takes the sprite out of every
  group that holds it.
\<close>

definition group_add :: "'a \<Rightarrow> 'a list \<Rightarrow> 'a list" where
  "group_add x g = (if x \<in> set g then g else g @ [x])"

definition kill_asteroid :: "nat \<Rightarrow> world \<Rightarrow> world" where
  "kill_asteroid a w =
     w\<lparr> all_sprites := removeAll (AsteroidRef a) (all_sprites w),
        asteroids := removeAll a (asteroids w) \<rparr>"

definition kill_bullet :: "nat \<Rightarrow> world \<Rightarrow> world" where
  "kill_bullet b w =
     w\<lparr> all_sprites := removeAll (BulletRef b) (all_sprites w),
        bullets := removeAll b (bullets w) \<rparr>"

text \<open>
  \<^verbatim>\<open>pygame.sprite.spritecollide(sprite, group, False)\<close>: the members of the group whose
  rectangle collides with the sprite's, in the group's order.
\<close>

definition spritecollide :: "pygame \<Rightarrow> rect \<Rightarrow> world \<Rightarrow> nat list" where
  "spritecollide L r w =
     filter (\<lambda>a. colliderect L r (sprite_rect (ast_objs w a))) (asteroids w)"

text \<open>
  \<^verbatim>\<open>pygame.sprite.groupcollide(bullets, asteroids, True, False)\<close>: for every bullet of
  the group as it stands at the call, the asteroids it collides with; a bullet with a
  collision enters the returned dictionary and is killed. No asteroid is removed here,
  so two bullets can list the same asteroid.
\<close>

fun groupcollide_loop ::
  "pygame \<Rightarrow> nat list \<Rightarrow> (nat \<times> nat list) list \<Rightarrow> world \<Rightarrow> (nat \<times> nat list) list \<times> world" where
  "groupcollide_loop L [] crashed w = (crashed, w)"
| "groupcollide_loop L (b # bs) crashed w =
     (let collision = spritecollide L (sprite_rect (bul_objs w b)) w
      in if collision \<noteq> []
         then groupcollide_loop L bs (crashed @ [(b, collision)]) (kill_bullet b w)
         else groupcollide_loop L bs crashed w)"

definition groupcollide :: "pygame \<Rightarrow> world \<Rightarrow> (nat \<times> nat list) list \<times> world" where
  "groupcollide L w = groupcollide_loop L (bullets w) [] w"

subsection \<open>Collision: bullet hits asteroid\<close>

text \<open>\<^verbatim>\<open>all_sprites.add(frag)\<close> and \<^verbatim>\<open>asteroids.add(frag)\<close>.\<close>

definition add_fragment :: "nat \<Rightarrow> world \<Rightarrow> world" where
  "add_fragment frag w =
     w\<lparr> all_sprites := group_add (AsteroidRef frag) (all_sprites w),
        asteroids := group_add frag (asteroids w) \<rparr>"

text \<open>The body of the inner loop (lines 340 to 345), for one listed asteroid.\<close>

definition hit_asteroid :: "pygame \<Rightarrow> nat \<Rightarrow> world \<Rightarrow> world result" where
  "hit_asteroid L a w =
     (case break_apart L a w of
        Inl e \<Rightarrow> Inl e
      | Inr (fragments, w1) \<Rightarrow>
          let w2 = kill_asteroid a w1;
              w3 = fold add_fragment fragments w2
          in Inr (w3\<lparr> score := score w3 + 10 * size_tier (ast_objs w3 a) \<rparr>))"

fun hit_asteroids_loop :: "pygame \<Rightarrow> nat list \<Rightarrow> world \<Rightarrow> world result" where
  "hit_asteroids_loop L [] w = Inr w"
| "hit_asteroids_loop L (a # hit_asteroids) w =
     (case hit_asteroid L a w of
        Inl e \<Rightarrow> Inl e
      | Inr w' \<Rightarrow> hit_asteroids_loop L hit_asteroids w')"

fun hits_loop :: "pygame \<Rightarrow> (nat \<times> nat list) list \<Rightarrow> world \<Rightarrow> world result" where
  "hits_loop L [] w = Inr w"
| "hits_loop L ((bullet, hit_asteroids) # hits) w =
     (case hit_asteroids_loop L hit_asteroids w of
        Inl e \<Rightarrow> Inl e
      | Inr w' \<Rightarrow> hits_loop L hits w')"

definition bullet_hits :: "pygame \<Rightarrow> world \<Rightarrow> world result" where
  "bullet_hits L w = (let (hits, w1) = groupcollide L w in hits_loop L hits w1)"

subsection \<open>Player\<close>

datatype key = K_LEFT | K_RIGHT | K_UP | K_SPACE | K_ESCAPE | K_r | K_q | K_other nat

definition Player_init :: "pygame \<Rightarrow> vec2 \<Rightarrow> player" where
  "Player_init L p =
     (let img = ship_image L;
          base = GameObject_init L img p None 0;
          rot = transform_rotate L (original_image base) 0
      in game_object.extend
           (base\<lparr> rotation_speed := 0, angle := 0, sprite_image := rot,
                  sprite_rect := get_rect L rot p \<rparr>)
           (player.fields 0.15 6 0 250))"

text \<open>
  \<^verbatim>\<open>Player.handle_input(keys, dt)\<close>. The only call that can raise is
  \<^verbatim>\<open>scale_to_length\<close>, under the guard of line 124.
\<close>

definition handle_input :: "pygame \<Rightarrow> (key \<Rightarrow> bool) \<Rightarrow> real \<Rightarrow> player \<Rightarrow> player result" where
  "handle_input L keys dt self =
     (let s1 = (if keys K_LEFT then self\<lparr> angle := py_mod (angle self + 180 * dt) 360 \<rparr>
                else self);
          s2 = (if keys K_RIGHT then s1\<lparr> angle := py_mod (angle s1 - 180 * dt) 360 \<rparr>
                else s1);
          r3 = (if keys K_UP
                then let direction = angle_to_vector (angle s2);
                         v = vadd (velocity s2) (vscale direction (thrust s2))
                     in if vlength v > max_speed s2
                        then (case scale_to_length v (max_speed s2) of
                                Inl e \<Rightarrow> Inl e
                              | Inr v' \<Rightarrow> Inr (s2\<lparr> velocity := v' \<rparr>))
                        else Inr (s2\<lparr> velocity := v \<rparr>)
                else Inr s2)
      in case r3 of
           Inl e \<Rightarrow> Inl e
         | Inr s3 \<Rightarrow>
             let s4 = s3\<lparr> velocity := vscale (velocity s3) 0.99 \<rparr>;
                 img = transform_rotate L (original_image s4) (angle s4)
             in Inr (s4\<lparr> sprite_image := img,
                          sprite_rect := get_rect L img (rect_center L (sprite_rect s4)) \<rparr>))"

definition can_shoot :: "player \<Rightarrow> int \<Rightarrow> bool" where
  "can_shoot self current_time \<longleftrightarrow> current_time - last_shot_time self \<ge> shot_cooldown self"

text \<open>
  \<^verbatim>\<open>Bullet.__init__\<close>; \<open>t\<close> is the reading of \<^verbatim>\<open>pygame.time.get_ticks()\<close> it takes
  for \<^verbatim>\<open>spawn_time\<close>.
\<close>

definition Bullet_init :: "pygame \<Rightarrow> vec2 \<Rightarrow> vec2 \<Rightarrow> int \<Rightarrow> bullet" where
  "Bullet_init L p vel t =
     game_object.extend (GameObject_init L (heart_image L) p (Some vel) 0)
       (bullet.fields 2000 t)"

text \<open>
  \<^verbatim>\<open>Player.shoot(current_time)\<close>: the player with the new \<^verbatim>\<open>last_shot_time\<close> and the
  bullet returned. \<^verbatim>\<open>self.rect.width // 2\<close> is integer floor division.
\<close>

definition shoot :: "pygame \<Rightarrow> int \<Rightarrow> int \<Rightarrow> player \<Rightarrow> player \<times> bullet" where
  "shoot L current_time t self =
     (let s1 = self\<lparr> last_shot_time := current_time \<rparr>;
          direction = angle_to_vector (angle s1);
          bullet_vel = vadd (vscale direction 10) (velocity s1);
          bullet_pos = vadd (pos s1)
                         (vscale direction (real_of_int (width (sprite_rect s1) div 2)))
      in (s1, Bullet_init L bullet_pos bullet_vel t))"

subsection \<open>Updating the sprites\<close>

text \<open>
  \<^verbatim>\<open>all_sprites.update()\<close> calls \<^verbatim>\<open>update\<close> on every member of the group as it stands
  at the call. \<^verbatim>\<open>Bullet.update\<close> reads the clock and kills a bullet past its lifetime.
\<close>

fun update_sprites :: "pygame \<Rightarrow> sprite_ref list \<Rightarrow> world \<Rightarrow> world" where
  "update_sprites L [] w = w"
| "update_sprites L (PlayerRef # rs) w =
     update_sprites L rs (w\<lparr> player := GameObject_update L (player w) \<rparr>)"
| "update_sprites L (AsteroidRef a # rs) w =
     update_sprites L rs
       (w\<lparr> ast_objs := (ast_objs w)(a := GameObject_update L (ast_objs w a)) \<rparr>)"
| "update_sprites L (BulletRef b # rs) w =
     (let s = GameObject_update L (bul_objs w b);
          t = shd (ticks w);
          w1 = w\<lparr> bul_objs := (bul_objs w)(b := s), ticks := stl (ticks w) \<rparr>
      in update_sprites L rs
           (if t - spawn_time s > lifetime s then kill_bullet b w1 else w1))"

definition update_all :: "pygame \<Rightarrow> world \<Rightarrow> world" where
  "update_all L w = update_sprites L (all_sprites w) w"

subsection \<open>reset_game\<close>

text \<open>
  The loop \<^verbatim>\<open>while True\<close> that draws a spawn position until one lies outside the safe
  zone. It need not end: on a sequence of draws that never leaves the zone it has no
  result.
\<close>

partial_function (option) spawn_position :: "vec2 \<Rightarrow> rng \<Rightarrow> (vec2 \<times> rng) option" where
  "spawn_position player_pos g =
     (let xg = randrange (nat SCREEN_WIDTH) g;
          yg = randrange (nat SCREEN_HEIGHT) (snd xg);
          p = (real_of_int (fst xg), real_of_int (fst yg))
      in if distance_to p player_pos > 200 then Some (p, snd yg)
         else spawn_position player_pos (snd yg))"

text \<open>The loop \<^verbatim>\<open>for _ in range(5)\<close>, with the number of rounds left.\<close>

fun spawn_asteroids :: "pygame \<Rightarrow> nat \<Rightarrow> player \<Rightarrow> world \<Rightarrow> world result option" where
  "spawn_asteroids L 0 p w = Some (Inr w)"
| "spawn_asteroids L (Suc n) p w =
     (case spawn_position (pos p) (rng w) of
        None \<Rightarrow> None
      | Some (q, g) \<Rightarrow>
          (case new_Asteroid L q 3 (w\<lparr> rng := g \<rparr>) of
             Inl e \<Rightarrow> Some (Inl e)
           | Inr (a, w1) \<Rightarrow> spawn_asteroids L n p (add_fragment a w1)))"

text \<open>
  \<^verbatim>\<open>reset_game\<close> empties the three groups, builds the player and the asteroid field and
  returns the player and the score 0; the caller assigns them. \<open>PlayerRef\<close> in
  \<open>all_sprites\<close> stands for the player object returned.
\<close>

definition reset_game :: "pygame \<Rightarrow> world \<Rightarrow> (player \<times> int \<times> world) result option" where
  "reset_game L w =
     (let w1 = w\<lparr> all_sprites := [], asteroids := [], bullets := [] \<rparr>;
          p = Player_init L (real_of_int SCREEN_WIDTH / 2, real_of_int SCREEN_HEIGHT / 2);
          w2 = w1\<lparr> all_sprites := group_add PlayerRef (all_sprites w1) \<rparr>
      in case spawn_asteroids L 5 p w2 of
           None \<Rightarrow> None
         | Some (Inl e) \<Rightarrow> Some (Inl e)
         | Some (Inr w3) \<Rightarrow> Some (Inr (p, 0, w3)))"

subsection \<open>The main loop\<close>

datatype event = QUIT | KEYDOWN key | OTHER_EVENT nat

text \<open>One event of the queue (lines 300 to 328).\<close>

definition fire :: "pygame \<Rightarrow> world \<Rightarrow> world" where
  "fire L w =
     (let now = shd (ticks w);
          w1 = w\<lparr> ticks := stl (ticks w) \<rparr>
      in if can_shoot (player w1) now
         then let t = shd (ticks w1);
                  (p, bullet) = shoot L now t (player w1);
                  b = next_ref w1
              in w1\<lparr> ticks := stl (ticks w1),
                     player := p,
                     bul_objs := (bul_objs w1)(b := bullet),
                     next_ref := Suc b,
                     all_sprites := group_add (BulletRef b) (all_sprites w1),
                     bullets := group_add b (bullets w1) \<rparr>
         else w1)"

definition handle_event :: "pygame \<Rightarrow> event \<Rightarrow> world \<Rightarrow> world result option" where
  "handle_event L ev w =
     (case ev of
        QUIT \<Rightarrow> Some (Inr (w\<lparr> running := False \<rparr>))
      | KEYDOWN k \<Rightarrow>
          (case state w of
             START \<Rightarrow>
               if k = K_SPACE then Some (Inr (w\<lparr> state := PLAYING \<rparr>)) else Some (Inr w)
           | PLAYING \<Rightarrow>
               if k = K_SPACE then Some (Inr (fire L w))
               else if k = K_ESCAPE then Some (Inr (w\<lparr> state := PAUSED \<rparr>))
               else Some (Inr w)
           | PAUSED \<Rightarrow>
               if k = K_ESCAPE then Some (Inr (w\<lparr> state := PLAYING \<rparr>)) else Some (Inr w)
           | GAME_OVER \<Rightarrow>
               if k = K_r
               then (case reset_game L w of
                       None \<Rightarrow> None
                     | Some (Inl e) \<Rightarrow> Some (Inl e)
                     | Some (Inr (p, sc, w1)) \<Rightarrow>
                         Some (Inr (w1\<lparr> player := p, score := sc, state := PLAYING \<rparr>)))
               else if k = K_q then Some (Inr (w\<lparr> running := False \<rparr>))
               else Some (Inr w))
      | OTHER_EVENT n \<Rightarrow> Some (Inr w))"

fun handle_events :: "pygame \<Rightarrow> event list \<Rightarrow> world \<Rightarrow> world result option" where
  "handle_events L [] w = Some (Inr w)"
| "handle_events L (ev # evs) w =
     (case handle_event L ev w of
        None \<Rightarrow> None
      | Some (Inl e) \<Rightarrow> Some (Inl e)
      | Some (Inr w') \<Rightarrow> handle_events L evs w')"

text \<open>\<^verbatim>\<open>pygame.sprite.spritecollideany(player, asteroids)\<close>, read as a truth value.\<close>

definition spritecollideany :: "pygame \<Rightarrow> world \<Rightarrow> bool" where
  "spritecollideany L w \<longleftrightarrow> spritecollide L (sprite_rect (player w)) w \<noteq> []"

text \<open>Lines 332 to 334: the held keys steer the player, then every sprite moves.\<close>

definition move_sprites :: "pygame \<Rightarrow> (key \<Rightarrow> bool) \<Rightarrow> real \<Rightarrow> world \<Rightarrow> world result" where
  "move_sprites L keys dt w =
     (case handle_input L keys dt (player w) of
        Inl e \<Rightarrow> Inl e
      | Inr p \<Rightarrow> Inr (update_all L (w\<lparr> player := p \<rparr>)))"

text \<open>The update logic (lines 331 to 349); it runs only in state \<open>PLAYING\<close>.\<close>

definition update_logic :: "pygame \<Rightarrow> (key \<Rightarrow> bool) \<Rightarrow> real \<Rightarrow> world \<Rightarrow> world result" where
  "update_logic L keys dt w =
     (if state w = PLAYING
      then (case move_sprites L keys dt w of
              Inl e \<Rightarrow> Inl e
            | Inr w1 \<Rightarrow>
                (case bullet_hits L w1 of
                   Inl e \<Rightarrow> Inl e
                 | Inr w2 \<Rightarrow>
                     if spritecollideany L w2 then Inr (w2\<lparr> state := GAME_OVER \<rparr>)
                     else Inr w2))
      else Inr w)"

text \<open>
  The input of one iteration: the events of the queue, the keys held, and the time
  step \<^verbatim>\<open>clock.tick(FPS) / 1000.0\<close>.
\<close>

record frame_input =
  events :: "event list"
  pressed :: "key \<Rightarrow> bool"
  dt :: real

definition frame :: "pygame \<Rightarrow> frame_input \<Rightarrow> world \<Rightarrow> world result option" where
  "frame L inp w =
     (case handle_events L (events inp) w of
        None \<Rightarrow> None
      | Some (Inl e) \<Rightarrow> Some (Inl e)
      | Some (Inr w1) \<Rightarrow> Some (update_logic L (pressed inp) (dt inp) w1))"

text \<open>\<^verbatim>\<open>while running\<close>, over the inputs of the coming iterations.\<close>

fun run_frames :: "pygame \<Rightarrow> frame_input list \<Rightarrow> world \<Rightarrow> world result option" where
  "run_frames L [] w = Some (Inr w)"
| "run_frames L (inp # inps) w =
     (if running w
      then (case frame L inp w of
              None \<Rightarrow> None
            | Some (Inl e) \<Rightarrow> Some (Inl e)
            | Some (Inr w') \<Rightarrow> run_frames L inps w')
      else Some (Inr w))"

text \<open>
  The state at the first iteration (lines 285 to 295): empty groups, then
  \<^verbatim>\<open>reset_game\<close>, state \<open>START\<close>. Nothing is allocated before: \<open>objs\<close> is what the
  stores hold at references not yet allocated, and the variables \<^verbatim>\<open>player\<close> and
  \<^verbatim>\<open>score\<close>, unbound until \<^verbatim>\<open>reset_game\<close> returns, hold placeholders.
\<close>

definition startup ::
  "pygame \<Rightarrow> asteroid \<times> bullet \<Rightarrow> rng \<Rightarrow> int stream \<Rightarrow> world result option" where
  "startup L objs g t =
     (let p0 = Player_init L (0, 0);
          w0 = \<lparr> ast_objs = (\<lambda>_. fst objs), bul_objs = (\<lambda>_. snd objs), next_ref = 0,
                 rng = g, ticks = t, all_sprites = [], asteroids = [], bullets = [],
                 player = p0, score = 0, state = START, running = True \<rparr>
      in case reset_game L w0 of
           None \<Rightarrow> None
         | Some (Inl e) \<Rightarrow> Some (Inl e)
         | Some (Inr (p, sc, w1)) \<Rightarrow>
             Some (Inr (w1\<lparr> player := p, score := sc, state := START, running := True \<rparr>)))"

subsection \<open>wrap_position at binary64 precision\<close>

text \<open>
  A Python float is an IEEE 754 binary64 number. Finite binary64 numbers are modelled as
  the real numbers they denote. \<open>f64_round\<close> rounds a real of magnitude below
  \<open>2^1024\<close> to the nearest binary64 number, ties to even: the unit in the last place of
  \<open>r\<close> is \<open>2^e\<close>, with \<open>e\<close> the exponent of \<open>r\<close> less 52 and at least \<open>-1074\<close>.
\<close>

definition ilog2 :: "real \<Rightarrow> int" where
  "ilog2 r = (if 1 \<le> r then bitlen \<lfloor>r\<rfloor> - 1 else - bitlen (\<lceil>1 / r\<rceil> - 1))"

definition round_half_even :: "real \<Rightarrow> int" where
  "round_half_even x =
     (let n = \<lfloor>x\<rfloor>; d = x - of_int n
      in if d < 1 / 2 then n else if d > 1 / 2 then n + 1
         else if even n then n else n + 1)"

definition f64_round :: "real \<Rightarrow> real" where
  "f64_round r =
     (if r = 0 then 0
      else let e = max (ilog2 \<bar>r\<bar> - 52) (- 1074)
           in of_int (round_half_even (r / 2 powi e)) * 2 powi e)"

definition is_f64 :: "real \<Rightarrow> bool" where
  "is_f64 r \<longleftrightarrow> \<bar>r\<bar> < 2 ^ 1024 \<and> f64_round r = r"

text \<open>C's \<^verbatim>\<open>fmod(x, y)\<close> for \<open>y \<noteq> 0\<close>: exact, with the sign of \<open>x\<close>.\<close>

definition c_fmod :: "real \<Rightarrow> real \<Rightarrow> real" where
  "c_fmod x y = sgn x * (\<bar>x\<bar> - \<bar>y\<bar> * of_int \<lfloor>\<bar>x\<bar> / \<bar>y\<bar>\<rfloor>)"

text \<open>
  CPython's \<^verbatim>\<open>float_rem\<close>, which evaluates \<^verbatim>\<open>vx % wx\<close> for \<open>wx \<noteq> 0\<close>: the result of
  \<^verbatim>\<open>fmod\<close>, with \<open>wx\<close> added (a rounded float addition) when it is not zero and its
  sign differs from the sign of \<open>wx\<close>.
\<close>

definition float_rem :: "real \<Rightarrow> real \<Rightarrow> real" where
  "float_rem vx wx =
     (let m = c_fmod vx wx
      in if m \<noteq> 0 then (if (wx < 0) \<noteq> (m < 0) then f64_round (m + wx) else m)
         else 0)"

definition wrap_position_f64 :: "vec2 \<Rightarrow> vec2" where
  "wrap_position_f64 p =
     (let x = float_rem (fst p) (real_of_int SCREEN_WIDTH);
          y = float_rem (snd p) (real_of_int SCREEN_HEIGHT)
      in (x, y))"

subsection \<open>Predicates of the properties\<close>

text \<open>
  What holds of every state the loop reaches: the references held by the groups are
  allocated, every live asteroid has one of the three size tiers that the constructor
  accepts, and the score is not negative.
\<close>

definition ref_allocated :: "world \<Rightarrow> sprite_ref \<Rightarrow> bool" where
  "ref_allocated w r =
     (case r of PlayerRef \<Rightarrow> True | AsteroidRef a \<Rightarrow> a < next_ref w
      | BulletRef b \<Rightarrow> b < next_ref w)"

definition world_ok :: "world \<Rightarrow> bool" where
  "world_ok w \<longleftrightarrow>
     list_all (\<lambda>a. a < next_ref w \<and> size_tier (ast_objs w a) \<in> {1, 2, 3}) (asteroids w) \<and>
     list_all (ref_allocated w) (all_sprites w) \<and>
     list_all (\<lambda>b. b < next_ref w) (bullets w) \<and>
     0 \<le> score w"

text \<open>The asteroids a bullet overlaps, and the number of bullets that overlap an asteroid.\<close>

definition hits_of :: "pygame \<Rightarrow> world \<Rightarrow> nat \<Rightarrow> nat list" where
  "hits_of L w b = spritecollide L (sprite_rect (bul_objs w b)) w"

definition hit_count :: "pygame \<Rightarrow> world \<Rightarrow> nat \<Rightarrow> nat" where
  "hit_count L w a =
     length (filter (\<lambda>b. colliderect L (sprite_rect (bul_objs w b)) (sprite_rect (ast_objs w a)))
               (bullets w))"

text \<open>A fresh session, as \<^verbatim>\<open>reset_game\<close> and the assignment of its result leave it.\<close>

definition fresh_session :: "world \<Rightarrow> bool" where
  "fresh_session w \<longleftrightarrow>
     score w = 0 \<and>
     pos (player w) = (400, 300) \<and> velocity (player w) = (0, 0) \<and>
     all_sprites w = PlayerRef # map AsteroidRef (asteroids w) \<and>
     length (asteroids w) = 5 \<and> distinct (asteroids w) \<and>
     list_all (\<lambda>a. size_tier (ast_objs w a) = 3 \<and>
                    distance_to (pos (ast_objs w a)) (pos (player w)) > 200) (asteroids w) \<and>
     bullets w = []"

text \<open>
  A pair of draws that \<^verbatim>\<open>reset_game\<close> accepts as a spawn position: it lies outside
  the safe zone around the player's start position. A sequence of draws is fair when each
  of its suffixes has such a pair after an even number of draws, so that the search for a
  spawn position comes to an end wherever in the sequence it starts.
\<close>

definition safe_draws :: "rng \<Rightarrow> bool" where
  "safe_draws g \<longleftrightarrow>
     distance_to (real_of_int (fst (randrange 800 g)),
                  real_of_int (fst (randrange 600 (stl g)))) (400, 300) > 200"

definition rng_fair :: "rng \<Rightarrow> bool" where
  "rng_fair g \<longleftrightarrow> (\<forall>n. \<exists>k. safe_draws (sdrop (n + 2 * k) g))"

subsection \<open>Sample values\<close>

text \<open>
  A pygame for the examples: square sprites that keep their size under rotation,
  rectangles that overlap when they share a point of positive area, and vectors that
  are false only when zero.
\<close>

definition sample_pygame :: pygame where
  "sample_pygame =
     \<lparr> ship_image = (60, 60),
       asteroid_image = (\<lambda>n. (n, n)),
       heart_image = (25, 25),
       transform_rotate = (\<lambda>img a. img),
       get_rect = (\<lambda>img c. \<lparr> x_left = \<lfloor>fst c\<rfloor> - fst img div 2, y_top = \<lfloor>snd c\<rfloor> - snd img div 2,
                             width = fst img, height = snd img \<rparr>),
       rect_center = (\<lambda>r. (real_of_int (x_left r + width r div 2),
                           real_of_int (y_top r + height r div 2))),
       set_rect_center = (\<lambda>r c. r\<lparr> x_left := \<lfloor>fst c\<rfloor> - width r div 2,
                                    y_top := \<lfloor>snd c\<rfloor> - height r div 2 \<rparr>),
       colliderect = (\<lambda>a b. x_left a < x_left b + width b \<and> x_left b < x_left a + width a \<and>
                            y_top a < y_top b + height b \<and> y_top b < y_top a + height a),
       vector_nonzero = (\<lambda>v. v \<noteq> (0, 0)) \<rparr>"

definition sample_asteroid :: "vec2 \<Rightarrow> int \<Rightarrow> asteroid" where
  "sample_asteroid p sz =
     \<lparr> original_image = (100, 100), sprite_image = (100, 100),
       sprite_rect = get_rect sample_pygame (100, 100) p,
       pos = p, velocity = (1 / 2, 0), angle = 0, rotation_speed = 1 / 2,
       size_tier = sz \<rparr>"

definition sample_bullet :: "vec2 \<Rightarrow> bullet" where
  "sample_bullet p =
     \<lparr> original_image = (25, 25), sprite_image = (25, 25),
       sprite_rect = get_rect sample_pygame (25, 25) p,
       pos = p, velocity = (10, 0), angle = 0, rotation_speed = 0,
       lifetime = 2000, spawn_time = 0 \<rparr>"

text \<open>
  A state in play: one large asteroid (reference 0) at (100, 100) and two bullets
  (references 1 and 2) that both overlap it.
\<close>

definition sample_world :: world where
  "sample_world =
     \<lparr> ast_objs = (\<lambda>_. sample_asteroid (100, 100) 3),
       bul_objs = (\<lambda>b. if b = 1 then sample_bullet (90, 100) else sample_bullet (110, 100)),
       next_ref = 3,
       rng = sconst 0,
       ticks = sconst 0,
       all_sprites = [PlayerRef, AsteroidRef 0, BulletRef 1, BulletRef 2],
       asteroids = [0],
       bullets = [1, 2],
       player = Player_init sample_pygame (400, 300),
       score = 0,
       state = PLAYING,
       running = True \<rparr>"

text \<open>
  Draws whose first pair is the player's start position itself, which the search for a
  spawn position rejects, and the same state of play after the player has been hit.
\<close>

definition sample_rng :: rng where
  "sample_rng = 400 ## 300 ## sconst 0"

definition sample_game_over :: world where
  "sample_game_over = sample_world\<lparr> rng := sample_rng, score := 60, state := GAME_OVER \<rparr>"

section \<open>Properties\<close>

subsection \<open>Wrapping positions\<close>

lemma round_half_even_bounds:
  "\<lfloor>x\<rfloor> \<le> round_half_even x \<and> round_half_even x \<le> \<lceil>x\<rceil>"
proof -
  have a: "\<lfloor>x\<rfloor> \<le> \<lceil>x\<rceil>" by (rule floor_le_ceiling)
  have b: "x - of_int \<lfloor>x\<rfloor> \<ge> 1 / 2 \<Longrightarrow> \<lfloor>x\<rfloor> + 1 \<le> \<lceil>x\<rceil>"
    by linarith
  show ?thesis
    using a b by (simp add: round_half_even_def Let_def not_less)
qed

lemma ilog2_le_9:
  assumes "0 < r" "r < 1024"
  shows "ilog2 r \<le> 9"
proof (cases "1 \<le> r")
  case True
  have "\<lfloor>r\<rfloor> < 2 ^ nat 10" using assms by (simp add: floor_less_iff)
  then have "bitlen \<lfloor>r\<rfloor> \<le> 10" by (simp only: bitlen_le_iff_power) simp
  then show ?thesis using True by (simp add: ilog2_def)
next
  case False
  then show ?thesis using bitlen_nonneg[of "\<lceil>1 / r\<rceil> - 1"] by (simp add: ilog2_def)
qed

lemma f64_round_range:
  assumes "0 < r" "r < of_int c" "c \<le> 1024"
  shows "0 \<le> f64_round r \<and> f64_round r \<le> of_int c"
proof -
  define e where "e = max (ilog2 \<bar>r\<bar> - 52) (- 1074)"
  define P where "P = (2::real) powi e"
  define N where "N = c * 2 ^ nat (- e)"
  have e: "e \<le> 0" using ilog2_le_9[of r] assms by (simp add: e_def)
  have pw: "0 < P" by (simp add: P_def power_int_def)
  have fr: "f64_round r = of_int (round_half_even (r / P)) * P"
    using assms by (simp add: f64_round_def e_def P_def Let_def)
  have "0 \<le> r / P" using assms pw by (simp add: divide_nonneg_pos)
  then have "0 \<le> \<lfloor>r / P\<rfloor>" by simp
  then have lo: "0 \<le> round_half_even (r / P)"
    using round_half_even_bounds[of "r / P"] by linarith
  have "((1::real) / 2) ^ nat (- e) * 2 ^ nat (- e) = 1"
    by (simp add: power_mult_distrib[symmetric])
  then have "P * 2 ^ nat (- e) = 1"
    using e by (simp add: P_def power_int_def)
  then have NP: "of_int N * P = of_int c" by (simp add: N_def mult.assoc mult.commute)
  have "r / P \<le> of_int c / P" using assms pw by (simp add: divide_right_mono)
  also have "of_int c / P = of_int N" using NP pw by (simp add: field_simps)
  finally have "\<lceil>r / P\<rceil> \<le> N" by (simp add: ceiling_le_iff)
  then have "round_half_even (r / P) \<le> N"
    using round_half_even_bounds[of "r / P"] by linarith
  then have "(of_int (round_half_even (r / P)) :: real) \<le> of_int N" by simp
  then have "of_int (round_half_even (r / P)) * P \<le> of_int N * P"
    using pw by (simp add: mult_right_mono)
  then have hi: "f64_round r \<le> of_int c" using fr NP by simp
  have "0 \<le> f64_round r" using fr lo pw by simp
  then show ?thesis using hi by simp
qed

lemma c_fmod_nonneg:
  assumes "0 \<le> x" "0 < y"
  shows "c_fmod x y = py_mod x y"
  using assms by (cases "x = 0") (simp_all add: c_fmod_def py_mod_def)

lemma py_mod_range:
  assumes "0 < m"
  shows "0 \<le> py_mod x m \<and> py_mod x m < m"
proof -
  define k where "k = \<lfloor>x / m\<rfloor>"
  have "of_int k \<le> x / m" "x / m < of_int k + 1" unfolding k_def by linarith+
  then have "of_int k * m \<le> x" "x < (of_int k + 1) * m"
    using assms by (simp_all add: pos_le_divide_eq pos_divide_less_eq)
  then show ?thesis by (simp add: py_mod_def k_def[symmetric] algebra_simps)
qed

lemma py_mod_small:
  assumes "0 \<le> x" "x < m"
  shows "py_mod x m = x"
proof -
  have "\<lfloor>x / m\<rfloor> = 0" using assms by (simp add: floor_eq_iff)
  then show ?thesis by (simp add: py_mod_def)
qed

lemma c_fmod_neg:
  assumes "x < 0" "0 < y"
  shows "c_fmod x y = - py_mod (- x) y"
  using assms by (simp add: c_fmod_def py_mod_def)

lemma float_rem_range:
  assumes "0 < c" "c \<le> 1024"
  shows "0 \<le> float_rem x (of_int c) \<and> float_rem x (of_int c) \<le> of_int c"
proof (cases "0 \<le> x")
  case True
  then show ?thesis
    using assms py_mod_range[of "of_int c" x]
    by (simp add: float_rem_def c_fmod_nonneg Let_def)
next
  case False
  then have x: "x < 0" by simp
  have m: "c_fmod x (of_int c) = - py_mod (- x) (of_int c)"
    using x assms by (simp add: c_fmod_neg)
  have rg: "0 \<le> py_mod (- x) (of_int c)" "py_mod (- x) (of_int c) < of_int c"
    using py_mod_range[of "of_int c" "- x"] assms by simp_all
  show ?thesis
  proof (cases "py_mod (- x) (of_int c) = 0")
    case True
    then show ?thesis using assms by (simp add: float_rem_def m Let_def)
  next
    case False
    then have pos: "0 < py_mod (- x) (of_int c)" using rg by simp
    have "0 < - py_mod (- x) (of_int c) + of_int c" using rg by simp
    moreover have "- py_mod (- x) (of_int c) + of_int c < of_int c" using pos by simp
    ultimately have "0 \<le> f64_round (- py_mod (- x) (of_int c) + of_int c)
        \<and> f64_round (- py_mod (- x) (of_int c) + of_int c) \<le> of_int c"
      using f64_round_range assms by blast
    then show ?thesis using pos assms by (simp add: float_rem_def m Let_def)
  qed
qed

lemma float_rem_nonneg:
  assumes "0 \<le> x" "0 < y"
  shows "float_rem x y = py_mod x y"
  using assms py_mod_range[of y x] by (simp add: float_rem_def c_fmod_nonneg Let_def)

lemma float_rem_fixed:
  assumes "0 \<le> q" "q < y"
  shows "float_rem q y = q"
  using assms by (simp add: float_rem_nonneg py_mod_small)


lemma wrap_position_real:
  "0 \<le> fst (wrap_position p) \<and> fst (wrap_position p) < 800 \<and>
   0 \<le> snd (wrap_position p) \<and> snd (wrap_position p) < 600 \<and>
   wrap_position (wrap_position p) = wrap_position p"
  using py_mod_range[of 800 "fst p"] py_mod_range[of 600 "snd p"]
  by (simp add: wrap_position_def SCREEN_WIDTH_def SCREEN_HEIGHT_def Let_def py_mod_small)

text \<open>
  Claim C4, as the code has it. At binary64 precision \<^verbatim>\<open>wrap_position\<close> returns a
  position with x in the closed interval from 0 to 800 and y in the closed interval
  from 0 to 600. The upper bounds are reached: for a negative coordinate of tiny
  magnitude the sum \<^verbatim>\<open>fmod(x, 800) + 800\<close> rounds to 800. Wrapping again returns the
  same position whenever the wrapped position lies below both upper bounds, which is
  the case for every position with non-negative coordinates. (Over the reals the
  half-open range and idempotence hold for every position: \<open>wrap_position_real\<close>.)
\<close>

theorem wrap_position_f64_range:
  "0 \<le> fst (wrap_position_f64 p) \<and> fst (wrap_position_f64 p) \<le> 800 \<and>
   0 \<le> snd (wrap_position_f64 p) \<and> snd (wrap_position_f64 p) \<le> 600 \<and>
   (fst (wrap_position_f64 p) < 800 \<and> snd (wrap_position_f64 p) < 600 \<longrightarrow>
      wrap_position_f64 (wrap_position_f64 p) = wrap_position_f64 p) \<and>
   (0 \<le> fst p \<and> 0 \<le> snd p \<longrightarrow>
      fst (wrap_position_f64 p) < 800 \<and> snd (wrap_position_f64 p) < 600)"
proof -
  have x: "0 \<le> float_rem (fst p) 800 \<and> float_rem (fst p) 800 \<le> 800"
    using float_rem_range[of 800 "fst p"] by simp
  have y: "0 \<le> float_rem (snd p) 600 \<and> float_rem (snd p) 600 \<le> 600"
    using float_rem_range[of 600 "snd p"] by simp
  have idem: "wrap_position_f64 (wrap_position_f64 p) = wrap_position_f64 p"
    if "fst (wrap_position_f64 p) < 800" "snd (wrap_position_f64 p) < 600"
    using that x y
    by (simp add: wrap_position_f64_def SCREEN_WIDTH_def SCREEN_HEIGHT_def Let_def
        float_rem_fixed)
  have nonneg: "fst (wrap_position_f64 p) < 800 \<and> snd (wrap_position_f64 p) < 600"
    if "0 \<le> fst p" "0 \<le> snd p"
    using that py_mod_range[of 800 "fst p"] py_mod_range[of 600 "snd p"]
    by (simp add: wrap_position_f64_def SCREEN_WIDTH_def SCREEN_HEIGHT_def Let_def
        float_rem_nonneg)
  show ?thesis
    using x y idem nonneg
    by (simp add: wrap_position_f64_def SCREEN_WIDTH_def SCREEN_HEIGHT_def Let_def)
qed

theorem wrap_position_f64_range_witness:
  "wrap_position_f64 (900, - 50) = (100, 550) \<and>
   wrap_position_f64 (wrap_position_f64 (900, - 50)) = wrap_position_f64 (900, - 50)"
proof -
  have ev: "wrap_position_f64 (900, - 50) = (100, 550)" by code_simp
  show ?thesis using wrap_position_f64_range[of "(900, - 50)"] ev by simp
qed

theorem wrap_position_f64_counterexample:
  "is_f64 (- (1 / 2 ^ 70)) \<and> is_f64 0 \<and>
   wrap_position_f64 (- (1 / 2 ^ 70), 0) = (800, 0) \<and>
   \<not> fst (wrap_position_f64 (- (1 / 2 ^ 70), 0)) < 800 \<and>
   wrap_position_f64 (wrap_position_f64 (- (1 / 2 ^ 70), 0))
     \<noteq> wrap_position_f64 (- (1 / 2 ^ 70), 0)"
proof -
  have a: "is_f64 (- (1 / 2 ^ 70))" by code_simp
  have b: "is_f64 0" by (simp add: is_f64_def f64_round_def)
  have c: "wrap_position_f64 (- (1 / 2 ^ 70), 0) = (800, 0)" by code_simp
  have d: "wrap_position_f64 (800, 0) = (0, 0)" by code_simp
  show ?thesis using a b c d by simp
qed

subsection \<open>Allocation and fragmentation\<close>

lemma scale_mult_ok: "sz \<in> {1, 2, 3} \<Longrightarrow> \<exists>m. scale_mult sz = Inr m"
proof -
  assume "sz \<in> {1, 2, 3}"
  then have "scale_mult sz = Inr (if sz = 3 then 1.0 else if sz = 2 then 0.6 else 0.35)"
    by (auto simp: scale_mult_def)
  then show ?thesis by (rule exI)
qed

lemma Asteroid_init_ok:
  assumes "sz \<in> {1, 2, 3}"
  shows "\<exists>a g'. Asteroid_init L p sz g = Inr (a, g') \<and> size_tier a = sz \<and> pos a = p"
proof -
  obtain m where m: "scale_mult sz = Inr m" using scale_mult_ok[OF assms] by blast
  show ?thesis
    by (simp add: Asteroid_init_def m GameObject_init_def uniform_def Let_def
        game_object.defs asteroid.defs)
qed

lemma Asteroid_init_size:
  "Asteroid_init L p sz g = Inr (a, g') \<Longrightarrow> sz \<in> {1, 2, 3} \<and> size_tier a = sz \<and> pos a = p"
  by (auto simp: Asteroid_init_def scale_mult_def GameObject_init_def uniform_def Let_def
        game_object.defs asteroid.defs split: if_splits)

lemma new_Asteroid_ok:
  assumes "sz \<in> {1, 2, 3}"
  shows "\<exists>a g'. new_Asteroid L p sz w =
            Inr (next_ref w, w\<lparr> ast_objs := (ast_objs w)(next_ref w := a),
                                next_ref := Suc (next_ref w), rng := g' \<rparr>)
          \<and> size_tier a = sz \<and> pos a = p"
proof -
  obtain a g' where "Asteroid_init L p sz (rng w) = Inr (a, g')" "size_tier a = sz" "pos a = p"
    using Asteroid_init_ok[OF assms] by blast
  then show ?thesis by (auto simp: new_Asteroid_def)
qed

lemma break_apart_loop_effect:
  assumes "new_size \<in> {1, 2, 3}" "self < next_ref w"
  shows "\<exists>w'. break_apart_loop L n self new_size frags w =
            Inr (frags @ [next_ref w ..< next_ref w + n], w')
          \<and> next_ref w' = next_ref w + n
          \<and> (\<forall>i < next_ref w. ast_objs w' i = ast_objs w i)
          \<and> (\<forall>i. next_ref w \<le> i \<and> i < next_ref w + n \<longrightarrow>
                 size_tier (ast_objs w' i) = new_size \<and> pos (ast_objs w' i) = pos (ast_objs w self))
          \<and> w' = w\<lparr> ast_objs := ast_objs w', next_ref := next_ref w', rng := rng w' \<rparr>"
  using assms
proof (induction n arbitrary: frags w)
  case 0
  then show ?case by auto
next
  case (Suc n)
  obtain a g' where na: "new_Asteroid L (pos (ast_objs w self)) new_size w =
            Inr (next_ref w, w\<lparr> ast_objs := (ast_objs w)(next_ref w := a),
                                next_ref := Suc (next_ref w), rng := g' \<rparr>)"
     and a: "size_tier a = new_size" "pos a = pos (ast_objs w self)"
    using new_Asteroid_ok[OF Suc.prems(1)] by blast
  define w1 where "w1 = w\<lparr> ast_objs := (ast_objs w)(next_ref w := a),
                                next_ref := Suc (next_ref w), rng := g' \<rparr>"
  have self1: "self < next_ref w1" using Suc.prems(2) by (simp add: w1_def)
  obtain w' where ih: "break_apart_loop L n self new_size (frags @ [next_ref w]) w1 =
            Inr ((frags @ [next_ref w]) @ [next_ref w1 ..< next_ref w1 + n], w')"
     "next_ref w' = next_ref w1 + n"
     "\<forall>i < next_ref w1. ast_objs w' i = ast_objs w1 i"
     "\<forall>i. next_ref w1 \<le> i \<and> i < next_ref w1 + n \<longrightarrow>
                 size_tier (ast_objs w' i) = new_size \<and> pos (ast_objs w' i) = pos (ast_objs w1 self)"
     "w' = w1\<lparr> ast_objs := ast_objs w', next_ref := next_ref w', rng := rng w' \<rparr>"
    using Suc.IH[OF Suc.prems(1) self1, of "frags @ [next_ref w]"] by blast
  have nr: "next_ref w1 = Suc (next_ref w)" by (simp add: w1_def)
  have selfeq: "ast_objs w1 self = ast_objs w self" using Suc.prems(2) by (simp add: w1_def)
  have list: "next_ref w # [Suc (next_ref w) ..< Suc (next_ref w) + n] = [next_ref w ..< next_ref w + Suc n]"
    by (simp add: upt_rec)
  have "break_apart_loop L (Suc n) self new_size frags w =
            Inr (frags @ [next_ref w ..< next_ref w + Suc n], w')"
    using na ih(1) list by (simp add: w1_def[symmetric] nr)
  moreover have "next_ref w' = next_ref w + Suc n" using ih(2) nr by simp
  moreover have "\<forall>i < next_ref w. ast_objs w' i = ast_objs w i"
    using ih(3) nr by (simp add: w1_def)
  moreover have "\<forall>i. next_ref w \<le> i \<and> i < next_ref w + Suc n \<longrightarrow>
                 size_tier (ast_objs w' i) = new_size \<and> pos (ast_objs w' i) = pos (ast_objs w self)"
  proof (intro allI impI)
    fix i assume i: "next_ref w \<le> i \<and> i < next_ref w + Suc n"
    show "size_tier (ast_objs w' i) = new_size \<and> pos (ast_objs w' i) = pos (ast_objs w self)"
    proof (cases "i = next_ref w")
      case True
      then have "ast_objs w' i = a" using ih(3) nr by (simp add: w1_def)
      then show ?thesis using a by simp
    next
      case False
      then show ?thesis using ih(4) i nr selfeq by simp
    qed
  qed
  moreover have "w' = w\<lparr> ast_objs := ast_objs w', next_ref := next_ref w', rng := rng w' \<rparr>"
    by (subst ih(5)) (simp add: w1_def)
  ultimately show ?case by blast
qed

text \<open>The number of fragments of an asteroid of a given size tier.\<close>

lemma break_apart_effect:
  assumes "self < next_ref w" "size_tier (ast_objs w self) \<in> {1, 2, 3}"
  shows "\<exists>w'. break_apart L self w =
            Inr ([next_ref w ..< next_ref w + (if size_tier (ast_objs w self) > 1 then 2 else 0)], w')
          \<and> next_ref w' = next_ref w + (if size_tier (ast_objs w self) > 1 then 2 else 0)
          \<and> (\<forall>i < next_ref w. ast_objs w' i = ast_objs w i)
          \<and> (\<forall>i. next_ref w \<le> i \<and> i < next_ref w' \<longrightarrow>
                 size_tier (ast_objs w' i) = size_tier (ast_objs w self) - 1
                 \<and> pos (ast_objs w' i) = pos (ast_objs w self))
          \<and> w' = w\<lparr> ast_objs := ast_objs w', next_ref := next_ref w', rng := rng w' \<rparr>"
proof (cases "size_tier (ast_objs w self) \<le> 1")
  case True
  then show ?thesis by (auto simp: break_apart_def)
next
  case False
  then have ns: "size_tier (ast_objs w self) - 1 \<in> {1, 2, 3}" using assms(2) by auto
  obtain w' where
    "break_apart_loop L 2 self (size_tier (ast_objs w self) - 1) [] w =
       Inr ([] @ [next_ref w ..< next_ref w + 2], w')"
    "next_ref w' = next_ref w + 2"
    "\<forall>i < next_ref w. ast_objs w' i = ast_objs w i"
    "\<forall>i. next_ref w \<le> i \<and> i < next_ref w + 2 \<longrightarrow>
        size_tier (ast_objs w' i) = size_tier (ast_objs w self) - 1
        \<and> pos (ast_objs w' i) = pos (ast_objs w self)"
    "w' = w\<lparr> ast_objs := ast_objs w', next_ref := next_ref w', rng := rng w' \<rparr>"
    using break_apart_loop_effect[OF ns assms(1), of L 2 "[]"] by blast
  then show ?thesis using False by (simp add: break_apart_def Let_def)
qed

lemma fold_add_fragment:
  assumes "distinct xs"
    "\<forall>x \<in> set xs. x \<notin> set (asteroids w) \<and> AsteroidRef x \<notin> set (all_sprites w)"
  shows "fold add_fragment xs w =
           w\<lparr> all_sprites := all_sprites w @ map AsteroidRef xs,
              asteroids := asteroids w @ xs \<rparr>"
  using assms
proof (induction xs arbitrary: w)
  case Nil
  then show ?case by simp
next
  case (Cons x xs)
  have step: "add_fragment x w =
      w\<lparr> all_sprites := all_sprites w @ [AsteroidRef x], asteroids := asteroids w @ [x] \<rparr>"
    using Cons.prems(2) by (simp add: add_fragment_def group_add_def)
  have "\<forall>y \<in> set xs. y \<notin> set (asteroids (add_fragment x w))
          \<and> AsteroidRef y \<notin> set (all_sprites (add_fragment x w))"
    using Cons.prems by (auto simp: step)
  then have "fold add_fragment xs (add_fragment x w) =
      (add_fragment x w)\<lparr> all_sprites := all_sprites (add_fragment x w) @ map AsteroidRef xs,
              asteroids := asteroids (add_fragment x w) @ xs \<rparr>"
    using Cons.IH Cons.prems(1) by simp
  then show ?case by (simp add: step)
qed

lemma hit_asteroid_effect:
  assumes "a < next_ref w" "size_tier (ast_objs w a) \<in> {1, 2, 3}"
    "list_all (\<lambda>i. i < next_ref w) (asteroids w)"
    "list_all (ref_allocated w) (all_sprites w)"
  shows "\<exists>w'. hit_asteroid L a w = Inr w'
          \<and> next_ref w' = next_ref w + (if size_tier (ast_objs w a) > 1 then 2 else 0)
          \<and> (\<forall>i < next_ref w. ast_objs w' i = ast_objs w i)
          \<and> (\<forall>i. next_ref w \<le> i \<and> i < next_ref w' \<longrightarrow>
                 size_tier (ast_objs w' i) = size_tier (ast_objs w a) - 1
                 \<and> pos (ast_objs w' i) = pos (ast_objs w a))
          \<and> asteroids w' = removeAll a (asteroids w) @ [next_ref w ..< next_ref w']
          \<and> all_sprites w' = removeAll (AsteroidRef a) (all_sprites w)
                               @ map AsteroidRef [next_ref w ..< next_ref w']
          \<and> score w' = score w + 10 * size_tier (ast_objs w a)
          \<and> w' = w\<lparr> ast_objs := ast_objs w', next_ref := next_ref w', rng := rng w',
                     all_sprites := all_sprites w', asteroids := asteroids w',
                     score := score w' \<rparr>"
proof -
  define k :: nat where "k = (if size_tier (ast_objs w a) > 1 then 2 else 0)"
  obtain w1 where b: "break_apart L a w = Inr ([next_ref w ..< next_ref w + k], w1)"
    and n1: "next_ref w1 = next_ref w + k"
    and st: "\<forall>i < next_ref w. ast_objs w1 i = ast_objs w i"
    and fr: "\<forall>i. next_ref w \<le> i \<and> i < next_ref w1 \<longrightarrow>
                 size_tier (ast_objs w1 i) = size_tier (ast_objs w a) - 1
                 \<and> pos (ast_objs w1 i) = pos (ast_objs w a)"
    and w1: "w1 = w\<lparr> ast_objs := ast_objs w1, next_ref := next_ref w1, rng := rng w1 \<rparr>"
    using break_apart_effect[OF assms(1,2), of L] unfolding k_def by blast
  have g1: "asteroids w1 = asteroids w" "all_sprites w1 = all_sprites w" "score w1 = score w"
    by (subst w1, simp)+
  define w2 where "w2 = kill_asteroid a w1"
  have fresh: "\<forall>x \<in> set [next_ref w ..< next_ref w + k].
      x \<notin> set (asteroids w2) \<and> AsteroidRef x \<notin> set (all_sprites w2)"
  proof
    fix x assume "x \<in> set [next_ref w ..< next_ref w + k]"
    then have x: "next_ref w \<le> x" by simp
    have "x \<notin> set (asteroids w)"
      using assms(3) x by (auto simp: list_all_iff)
    moreover have "AsteroidRef x \<notin> set (all_sprites w)"
      using assms(4) x by (auto simp: list_all_iff ref_allocated_def)
    ultimately show "x \<notin> set (asteroids w2) \<and> AsteroidRef x \<notin> set (all_sprites w2)"
      by (simp add: w2_def kill_asteroid_def g1)
  qed
  have f: "fold add_fragment [next_ref w ..< next_ref w + k] w2 =
           w2\<lparr> all_sprites := all_sprites w2 @ map AsteroidRef [next_ref w ..< next_ref w + k],
              asteroids := asteroids w2 @ [next_ref w ..< next_ref w + k] \<rparr>"
    using fold_add_fragment[OF _ fresh] by simp
  define w' where "w' = (fold add_fragment [next_ref w ..< next_ref w + k] w2)
      \<lparr> score := score (fold add_fragment [next_ref w ..< next_ref w + k] w2)
         + 10 * size_tier (ast_objs (fold add_fragment [next_ref w ..< next_ref w + k] w2) a) \<rparr>"
  have h: "hit_asteroid L a w = Inr w'"
    by (simp add: hit_asteroid_def b Let_def w2_def w'_def)
  have w'eq: "w' = w1\<lparr> all_sprites := removeAll (AsteroidRef a) (all_sprites w)
                                       @ map AsteroidRef [next_ref w ..< next_ref w + k],
                        asteroids := removeAll a (asteroids w) @ [next_ref w ..< next_ref w + k],
                        score := score w + 10 * size_tier (ast_objs w a) \<rparr>"
    unfolding w'_def f using st assms(1) by (simp add: w2_def kill_asteroid_def g1)
  have "next_ref w' = next_ref w + k" by (simp add: w'eq n1)
  moreover have "ast_objs w' = ast_objs w1" by (simp add: w'eq)
  moreover have "asteroids w' = removeAll a (asteroids w) @ [next_ref w ..< next_ref w + k]"
    by (simp add: w'eq)
  moreover have "all_sprites w' = removeAll (AsteroidRef a) (all_sprites w)
                               @ map AsteroidRef [next_ref w ..< next_ref w + k]"
    by (simp add: w'eq)
  moreover have "score w' = score w + 10 * size_tier (ast_objs w a)" by (simp add: w'eq)
  moreover have "w' = w\<lparr> ast_objs := ast_objs w', next_ref := next_ref w', rng := rng w',
                     all_sprites := all_sprites w', asteroids := asteroids w',
                     score := score w' \<rparr>"
    by (subst w'eq, subst w1) (simp add: w'eq)
  ultimately show ?thesis using h st fr n1 unfolding k_def by auto
qed

lemma new_Asteroid_frame:
  assumes "new_Asteroid L p sz w = Inr (r, w')"
  shows "r = next_ref w \<and> next_ref w' = Suc (next_ref w)
       \<and> (\<forall>i < next_ref w. ast_objs w' i = ast_objs w i)
       \<and> w' = w\<lparr> ast_objs := ast_objs w', next_ref := next_ref w', rng := rng w' \<rparr>"
  using assms by (auto simp: new_Asteroid_def split: sum.splits prod.splits)

lemma break_apart_loop_frame:
  assumes "break_apart_loop L n self new_size frags w = Inr (fs, w')"
  shows "next_ref w \<le> next_ref w'
       \<and> (\<forall>i < next_ref w. ast_objs w' i = ast_objs w i)
       \<and> w' = w\<lparr> ast_objs := ast_objs w', next_ref := next_ref w', rng := rng w' \<rparr>"
  using assms
proof (induction n arbitrary: frags w)
  case 0
  then show ?case by auto
next
  case (Suc n)
  from Suc.prems obtain r w1 where
    na: "new_Asteroid L (pos (ast_objs w self)) new_size w = Inr (r, w1)"
    and rest: "break_apart_loop L n self new_size (frags @ [r]) w1 = Inr (fs, w')"
    by (auto split: sum.splits prod.splits)
  note f1 = new_Asteroid_frame[OF na]
  note f2 = Suc.IH[OF rest]
  have "next_ref w \<le> next_ref w'" using f1 f2 by simp
  moreover have "\<forall>i < next_ref w. ast_objs w' i = ast_objs w i" using f1 f2 by simp
  moreover have "w' = w\<lparr> ast_objs := ast_objs w', next_ref := next_ref w', rng := rng w' \<rparr>"
  proof -
    have a: "w' = w1\<lparr> ast_objs := ast_objs w', next_ref := next_ref w', rng := rng w' \<rparr>"
      using f2 by blast
    have b: "w1 = w\<lparr> ast_objs := ast_objs w1, next_ref := next_ref w1, rng := rng w1 \<rparr>"
      using f1 by blast
    show ?thesis by (subst a, subst b) simp
  qed
  ultimately show ?case by blast
qed

lemma break_apart_frame:
  assumes "break_apart L self w = Inr (fs, w')"
  shows "next_ref w \<le> next_ref w'
       \<and> (\<forall>i < next_ref w. ast_objs w' i = ast_objs w i)
       \<and> w' = w\<lparr> ast_objs := ast_objs w', next_ref := next_ref w', rng := rng w' \<rparr>"
proof (cases "size_tier (ast_objs w self) \<le> 1")
  case True
  then show ?thesis using assms by (auto simp: break_apart_def)
next
  case False
  then show ?thesis
    using assms break_apart_loop_frame[of L 2 self "size_tier (ast_objs w self) - 1" "[]" w fs w']
    by (simp add: break_apart_def Let_def)
qed

lemma fold_add_fragment_frame:
  "ast_objs (fold add_fragment xs w) = ast_objs w \<and> score (fold add_fragment xs w) = score w"
  by (induction xs arbitrary: w) (simp_all add: add_fragment_def)

lemma break_apart_KeyError:
  assumes "4 < size_tier (ast_objs w self)"
  shows "break_apart L self w = Inl KeyError"
  using assms
  by (simp add: break_apart_def Let_def numeral_2_eq_2 new_Asteroid_def Asteroid_init_def
      scale_mult_def)

subsection \<open>Fragmentation\<close>

text \<open>
  Claim C2. \<^verbatim>\<open>break_apart\<close> of an asteroid of size at most 1 returns the empty list and
  changes nothing. For an asteroid of size above 1 it returns exactly two new asteroids,
  distinct from each other and from the parent, each of the parent's size less one and
  each at the parent's position, whatever the random draws are (the generator \<open>rng w\<close>
  is arbitrary). An Asteroid object has size 1, 2 or 3, since the constructor raises
  KeyError for any other size (\<open>Asteroid_init_size\<close>), so the sizes above 1 are 2 and
  3; the parent is an allocated object.
\<close>

theorem break_apart_fragmentation:
  "(size_tier (ast_objs w self) \<le> 1 \<longrightarrow> break_apart L self w = Inr ([], w)) \<and>
   (self < next_ref w \<and> size_tier (ast_objs w self) \<in> {2, 3} \<longrightarrow>
      (\<exists>f1 f2 w'. break_apart L self w = Inr ([f1, f2], w') \<and>
         f1 \<noteq> f2 \<and> f1 \<noteq> self \<and> f2 \<noteq> self \<and>
         size_tier (ast_objs w' f1) = size_tier (ast_objs w self) - 1 \<and>
         size_tier (ast_objs w' f2) = size_tier (ast_objs w self) - 1 \<and>
         pos (ast_objs w' f1) = pos (ast_objs w self) \<and>
         pos (ast_objs w' f2) = pos (ast_objs w self)))"
proof (intro conjI impI)
  assume "size_tier (ast_objs w self) \<le> 1"
  then show "break_apart L self w = Inr ([], w)" by (simp add: break_apart_def)
next
  assume h: "self < next_ref w \<and> size_tier (ast_objs w self) \<in> {2, 3}"
  then have big: "size_tier (ast_objs w self) > 1" and ok: "size_tier (ast_objs w self) \<in> {1, 2, 3}"
    by auto
  obtain w' where b: "break_apart L self w = Inr ([next_ref w ..< next_ref w + 2], w')"
    and n: "next_ref w' = next_ref w + 2"
    and fr: "\<forall>i. next_ref w \<le> i \<and> i < next_ref w' \<longrightarrow>
                 size_tier (ast_objs w' i) = size_tier (ast_objs w self) - 1
                 \<and> pos (ast_objs w' i) = pos (ast_objs w self)"
    using break_apart_effect[OF conjunct1[OF h] ok, of L] big by auto
  have l: "[next_ref w ..< next_ref w + 2] = [next_ref w, Suc (next_ref w)]"
    by (simp add: upt_rec)
  have "size_tier (ast_objs w' (next_ref w)) = size_tier (ast_objs w self) - 1
      \<and> pos (ast_objs w' (next_ref w)) = pos (ast_objs w self)"
    using fr n by simp
  moreover have "size_tier (ast_objs w' (Suc (next_ref w))) = size_tier (ast_objs w self) - 1
      \<and> pos (ast_objs w' (Suc (next_ref w))) = pos (ast_objs w self)"
    using fr n by simp
  ultimately show "\<exists>f1 f2 w'. break_apart L self w = Inr ([f1, f2], w') \<and>
         f1 \<noteq> f2 \<and> f1 \<noteq> self \<and> f2 \<noteq> self \<and>
         size_tier (ast_objs w' f1) = size_tier (ast_objs w self) - 1 \<and>
         size_tier (ast_objs w' f2) = size_tier (ast_objs w self) - 1 \<and>
         pos (ast_objs w' f1) = pos (ast_objs w self) \<and>
         pos (ast_objs w' f2) = pos (ast_objs w self)"
    using b l h by (intro exI[of _ "next_ref w"] exI[of _ "Suc (next_ref w)"] exI[of _ w']) simp
qed

theorem break_apart_fragmentation_witness:
  "(\<exists>f1 f2 w'. break_apart sample_pygame 0 sample_world = Inr ([f1, f2], w') \<and>
      f1 \<noteq> f2 \<and> f1 \<noteq> 0 \<and> f2 \<noteq> 0 \<and>
      size_tier (ast_objs w' f1) = 2 \<and> size_tier (ast_objs w' f2) = 2 \<and>
      pos (ast_objs w' f1) = (100, 100) \<and> pos (ast_objs w' f2) = (100, 100)) \<and>
   break_apart sample_pygame 0 (sample_world\<lparr> ast_objs := (\<lambda>_. sample_asteroid (7, 8) 1) \<rparr>)
     = Inr ([], sample_world\<lparr> ast_objs := (\<lambda>_. sample_asteroid (7, 8) 1) \<rparr>)"
  using break_apart_fragmentation[of sample_world 0 sample_pygame]
    break_apart_fragmentation[of "sample_world\<lparr> ast_objs := (\<lambda>_. sample_asteroid (7, 8) 1) \<rparr>" 0 sample_pygame]
  by (simp add: sample_world_def sample_asteroid_def)

text \<open>
  Claim C10. \<^verbatim>\<open>break_apart\<close> leaves the parent object as it was (all its fields, so
  size, position and velocity). Hence the loop body of the collision handling, which
  reads \<^verbatim>\<open>asteroid.size\<close> after \<^verbatim>\<open>break_apart\<close> and \<^verbatim>\<open>kill\<close>, adds ten times the
  parent's original size to the score.
\<close>

theorem break_apart_keeps_parent:
  assumes "self < next_ref w"
  shows "(\<forall>frags w'. break_apart L self w = Inr (frags, w') \<longrightarrow>
            ast_objs w' self = ast_objs w self) \<and>
         (\<forall>w'. hit_asteroid L self w = Inr w' \<longrightarrow>
            ast_objs w' self = ast_objs w self \<and>
            score w' = score w + 10 * size_tier (ast_objs w self))"
proof (intro conjI allI impI)
  fix frags w' assume "break_apart L self w = Inr (frags, w')"
  then show "ast_objs w' self = ast_objs w self"
    using break_apart_frame assms by blast
next
  fix w' assume h: "hit_asteroid L self w = Inr w'"
  then obtain frags w1 where b: "break_apart L self w = Inr (frags, w1)"
    by (auto simp: hit_asteroid_def split: sum.splits)
  have s1: "ast_objs w1 self = ast_objs w self" "score w1 = score w"
  proof -
    show "ast_objs w1 self = ast_objs w self" using break_apart_frame[OF b] assms by blast
    have eq: "w1 = w\<lparr> ast_objs := ast_objs w1, next_ref := next_ref w1, rng := rng w1 \<rparr>"
      using break_apart_frame[OF b] by blast
    show "score w1 = score w" by (subst eq) simp
  qed
  have "ast_objs w' = ast_objs w1 \<and> score w' = score w1 + 10 * size_tier (ast_objs w1 self)"
    using h b by (auto simp: hit_asteroid_def Let_def fold_add_fragment_frame kill_asteroid_def)
  then show "ast_objs w' self = ast_objs w self"
    and "score w' = score w + 10 * size_tier (ast_objs w self)"
    using s1 by simp_all
qed

theorem break_apart_keeps_parent_witness:
  "(\<exists>frags w'. break_apart sample_pygame 0 sample_world = Inr (frags, w') \<and>
      ast_objs w' 0 = sample_asteroid (100, 100) 3) \<and>
   (\<exists>w'. hit_asteroid sample_pygame 0 sample_world = Inr w' \<and>
      ast_objs w' 0 = sample_asteroid (100, 100) 3 \<and> score w' = 30)"
proof -
  have a: "0 < next_ref sample_world" by (simp add: sample_world_def)
  have sz: "size_tier (ast_objs sample_world 0) \<in> {1, 2, 3}"
    by (simp add: sample_world_def sample_asteroid_def)
  have g: "list_all (\<lambda>i. i < next_ref sample_world) (asteroids sample_world)"
    "list_all (ref_allocated sample_world) (all_sprites sample_world)"
    by (simp_all add: sample_world_def ref_allocated_def)
  obtain frags w1 where b: "break_apart sample_pygame 0 sample_world = Inr (frags, w1)"
    using break_apart_effect[OF a sz, of sample_pygame] by blast
  obtain w2 where h: "hit_asteroid sample_pygame 0 sample_world = Inr w2"
    using hit_asteroid_effect[OF a sz g, of sample_pygame] by blast
  have v: "ast_objs sample_world 0 = sample_asteroid (100, 100) 3" "score sample_world = 0"
    "size_tier (sample_asteroid (100, 100) 3) = 3"
    by (simp_all add: sample_world_def sample_asteroid_def)
  show ?thesis
    using break_apart_keeps_parent[OF a, of sample_pygame] b h v by auto
qed

subsection \<open>Collision handling\<close>

lemma hit_asteroids_loop_append:
  "hit_asteroids_loop L (xs @ ys) w =
     (case hit_asteroids_loop L xs w of Inl e \<Rightarrow> Inl e
      | Inr w' \<Rightarrow> hit_asteroids_loop L ys w')"
  by (induction xs arbitrary: w) (auto split: sum.splits)

lemma hits_loop_concat:
  "hits_loop L hits w = hit_asteroids_loop L (concat (map snd hits)) w"
  by (induction hits arbitrary: w) (auto simp: hit_asteroids_loop_append split: sum.splits)

lemma hit_asteroids_loop_effect:
  assumes "list_all (\<lambda>a. a < next_ref w \<and> size_tier (ast_objs w a) \<in> {1, 2, 3}) hs"
    "list_all (\<lambda>i. i < next_ref w) (asteroids w)"
    "list_all (ref_allocated w) (all_sprites w)"
  shows "\<exists>w'. hit_asteroids_loop L hs w = Inr w'
          \<and> next_ref w' = next_ref w + 2 * length (filter (\<lambda>a. size_tier (ast_objs w a) > 1) hs)
          \<and> (\<forall>i < next_ref w. ast_objs w' i = ast_objs w i)
          \<and> (\<forall>i. next_ref w \<le> i \<and> i < next_ref w' \<longrightarrow>
                 (\<exists>a \<in> set hs. 1 < size_tier (ast_objs w a)
                    \<and> size_tier (ast_objs w' i) = size_tier (ast_objs w a) - 1
                    \<and> pos (ast_objs w' i) = pos (ast_objs w a)))
          \<and> asteroids w' = filter (\<lambda>x. x \<notin> set hs) (asteroids w) @ [next_ref w ..< next_ref w']
          \<and> all_sprites w' = filter (\<lambda>r. r \<notin> AsteroidRef ` set hs) (all_sprites w)
                               @ map AsteroidRef [next_ref w ..< next_ref w']
          \<and> score w' = score w + (\<Sum>a\<leftarrow>hs. 10 * size_tier (ast_objs w a))
          \<and> w' = w\<lparr> ast_objs := ast_objs w', next_ref := next_ref w', rng := rng w',
                     all_sprites := all_sprites w', asteroids := asteroids w',
                     score := score w' \<rparr>"
  using assms
proof (induction hs arbitrary: w)
  case Nil
  then show ?case by auto
next
  case (Cons a hs)
  have a: "a < next_ref w" "size_tier (ast_objs w a) \<in> {1, 2, 3}"
    using Cons.prems(1) by simp_all
  define k :: nat where "k = (if size_tier (ast_objs w a) > 1 then 2 else 0)"
  obtain w1 where h1: "hit_asteroid L a w = Inr w1"
    and n1: "next_ref w1 = next_ref w + k"
    and st1: "\<forall>i < next_ref w. ast_objs w1 i = ast_objs w i"
    and fr1: "\<forall>i. next_ref w \<le> i \<and> i < next_ref w1 \<longrightarrow>
                 size_tier (ast_objs w1 i) = size_tier (ast_objs w a) - 1
                 \<and> pos (ast_objs w1 i) = pos (ast_objs w a)"
    and as1: "asteroids w1 = removeAll a (asteroids w) @ [next_ref w ..< next_ref w1]"
    and al1: "all_sprites w1 = removeAll (AsteroidRef a) (all_sprites w)
                               @ map AsteroidRef [next_ref w ..< next_ref w1]"
    and sc1: "score w1 = score w + 10 * size_tier (ast_objs w a)"
    and eq1: "w1 = w\<lparr> ast_objs := ast_objs w1, next_ref := next_ref w1, rng := rng w1,
                     all_sprites := all_sprites w1, asteroids := asteroids w1,
                     score := score w1 \<rparr>"
    using hit_asteroid_effect[OF a Cons.prems(2,3), of L] unfolding k_def by blast
  have hsw: "\<forall>x \<in> set hs. x < next_ref w \<and> size_tier (ast_objs w x) \<in> {1, 2, 3}"
    using Cons.prems(1) by (simp add: list_all_iff)
  have p1: "list_all (\<lambda>a. a < next_ref w1 \<and> size_tier (ast_objs w1 a) \<in> {1, 2, 3}) hs"
    unfolding list_all_iff
  proof
    fix x assume "x \<in> set hs"
    then have "x < next_ref w" "size_tier (ast_objs w x) \<in> {1, 2, 3}" using hsw by auto
    then show "x < next_ref w1 \<and> size_tier (ast_objs w1 x) \<in> {1, 2, 3}"
      using n1 st1 by simp
  qed
  have p2: "list_all (\<lambda>i. i < next_ref w1) (asteroids w1)"
    using Cons.prems(2) n1 by (auto simp: list_all_iff as1)
  have p3: "list_all (ref_allocated w1) (all_sprites w1)"
    using Cons.prems(3) n1 by (auto simp: list_all_iff al1 ref_allocated_def split: sprite_ref.splits)
  obtain w' where h': "hit_asteroids_loop L hs w1 = Inr w'"
    and n': "next_ref w' = next_ref w1 + 2 * length (filter (\<lambda>a. size_tier (ast_objs w1 a) > 1) hs)"
    and st': "\<forall>i < next_ref w1. ast_objs w' i = ast_objs w1 i"
    and fr': "\<forall>i. next_ref w1 \<le> i \<and> i < next_ref w' \<longrightarrow>
                 (\<exists>a \<in> set hs. 1 < size_tier (ast_objs w1 a)
                    \<and> size_tier (ast_objs w' i) = size_tier (ast_objs w1 a) - 1
                    \<and> pos (ast_objs w' i) = pos (ast_objs w1 a))"
    and as': "asteroids w' = filter (\<lambda>x. x \<notin> set hs) (asteroids w1) @ [next_ref w1 ..< next_ref w']"
    and al': "all_sprites w' = filter (\<lambda>r. r \<notin> AsteroidRef ` set hs) (all_sprites w1)
                               @ map AsteroidRef [next_ref w1 ..< next_ref w']"
    and sc': "score w' = score w1 + (\<Sum>a\<leftarrow>hs. 10 * size_tier (ast_objs w1 a))"
    and eq': "w' = w1\<lparr> ast_objs := ast_objs w', next_ref := next_ref w', rng := rng w',
                     all_sprites := all_sprites w', asteroids := asteroids w',
                     score := score w' \<rparr>"
    using Cons.IH[OF p1 p2 p3] by blast
  have same: "\<forall>x \<in> set hs. ast_objs w1 x = ast_objs w x" using hsw st1 by simp
  have le1: "next_ref w \<le> next_ref w1" using n1 by simp
  have le': "next_ref w1 \<le> next_ref w'" using n' by simp
  have c1: "hit_asteroids_loop L (a # hs) w = Inr w'" using h1 h' by simp
  have flt: "filter (\<lambda>a. size_tier (ast_objs w1 a) > 1) hs = filter (\<lambda>a. size_tier (ast_objs w a) > 1) hs"
    using same by (intro filter_cong) auto
  have c2: "next_ref w' = next_ref w + 2 * length (filter (\<lambda>a. size_tier (ast_objs w a) > 1) (a # hs))"
    using n' n1 flt by (simp add: k_def)
  have c3: "\<forall>i < next_ref w. ast_objs w' i = ast_objs w i" using st' st1 le1 by simp
  have c4: "\<forall>i. next_ref w \<le> i \<and> i < next_ref w' \<longrightarrow>
                 (\<exists>b \<in> set (a # hs). 1 < size_tier (ast_objs w b)
                    \<and> size_tier (ast_objs w' i) = size_tier (ast_objs w b) - 1
                    \<and> pos (ast_objs w' i) = pos (ast_objs w b))"
  proof (intro allI impI)
    fix i assume i: "next_ref w \<le> i \<and> i < next_ref w'"
    show "\<exists>b \<in> set (a # hs). 1 < size_tier (ast_objs w b)
                    \<and> size_tier (ast_objs w' i) = size_tier (ast_objs w b) - 1
                    \<and> pos (ast_objs w' i) = pos (ast_objs w b)"
    proof (cases "i < next_ref w1")
      case True
      then have "ast_objs w' i = ast_objs w1 i" using st' by simp
      moreover have "1 < size_tier (ast_objs w a)"
        using True i n1 by (cases "1 < size_tier (ast_objs w a)") (simp_all add: k_def)
      ultimately show ?thesis using fr1 i True by simp
    next
      case False
      then obtain b where "b \<in> set hs" "1 < size_tier (ast_objs w1 b)"
        "size_tier (ast_objs w' i) = size_tier (ast_objs w1 b) - 1"
        "pos (ast_objs w' i) = pos (ast_objs w1 b)"
        using fr' i by (meson not_less)
      then show ?thesis using same by auto
    qed
  qed
  have new_notin: "filter (\<lambda>x. x \<notin> set hs) [next_ref w ..< next_ref w1] = [next_ref w ..< next_ref w1]"
    using hsw by (intro filter_True) auto
  have upt: "[next_ref w ..< next_ref w1] @ [next_ref w1 ..< next_ref w'] = [next_ref w ..< next_ref w']"
    using le1 le' by (metis le_iff_add upt_add_eq_append)
  have c5: "asteroids w' = filter (\<lambda>x. x \<notin> set (a # hs)) (asteroids w) @ [next_ref w ..< next_ref w']"
  proof -
    have "filter (\<lambda>x. x \<notin> set hs) (removeAll a (asteroids w)) = filter (\<lambda>x. x \<notin> set (a # hs)) (asteroids w)"
      by (auto simp: removeAll_filter_not_eq intro: filter_cong)
    then show ?thesis using as' as1 new_notin upt by simp
  qed
  have new_notin2: "filter (\<lambda>r. r \<notin> AsteroidRef ` set hs) (map AsteroidRef [next_ref w ..< next_ref w1])
      = map AsteroidRef [next_ref w ..< next_ref w1]"
    using hsw by (intro filter_True) auto
  have c6: "all_sprites w' = filter (\<lambda>r. r \<notin> AsteroidRef ` set (a # hs)) (all_sprites w)
                               @ map AsteroidRef [next_ref w ..< next_ref w']"
  proof -
    have "filter (\<lambda>r. r \<notin> AsteroidRef ` set hs) (removeAll (AsteroidRef a) (all_sprites w))
        = filter (\<lambda>r. r \<notin> AsteroidRef ` set (a # hs)) (all_sprites w)"
      by (auto simp: removeAll_filter_not_eq intro: filter_cong)
    moreover have "map AsteroidRef [next_ref w ..< next_ref w1] @ map AsteroidRef [next_ref w1 ..< next_ref w']
        = map AsteroidRef [next_ref w ..< next_ref w']"
      using upt by (metis map_append)
    ultimately show ?thesis using al' al1 new_notin2 by simp
  qed
  have sm: "(\<Sum>a\<leftarrow>hs. 10 * size_tier (ast_objs w1 a)) = (\<Sum>a\<leftarrow>hs. 10 * size_tier (ast_objs w a))"
    using same by (intro arg_cong[where f = sum_list] map_cong) auto
  have c7: "score w' = score w + (\<Sum>a\<leftarrow>a # hs. 10 * size_tier (ast_objs w a))"
    using sc' sc1 sm by simp
  have c8: "w' = w\<lparr> ast_objs := ast_objs w', next_ref := next_ref w', rng := rng w',
                     all_sprites := all_sprites w', asteroids := asteroids w',
                     score := score w' \<rparr>"
    by (subst eq', subst eq1) simp
  show ?case using c1 c2 c3 c4 c5 c6 c7 c8 by blast
qed

lemma hits_of_kill_bullet: "hits_of L (kill_bullet b w) c = hits_of L w c"
  by (simp add: hits_of_def spritecollide_def kill_bullet_def)

lemma groupcollide_loop_effect:
  "groupcollide_loop L bs crashed w =
     (crashed @ map (\<lambda>b. (b, hits_of L w b)) (filter (\<lambda>b. hits_of L w b \<noteq> []) bs),
      w\<lparr> all_sprites := filter (\<lambda>r. r \<notin> BulletRef ` set (filter (\<lambda>b. hits_of L w b \<noteq> []) bs))
                           (all_sprites w),
         bullets := filter (\<lambda>b. b \<notin> set (filter (\<lambda>b. hits_of L w b \<noteq> []) bs)) (bullets w) \<rparr>)"
proof (induction bs arbitrary: crashed w)
  case Nil
  then show ?case by simp
next
  case (Cons b bs)
  define K where "K = filter (\<lambda>c. hits_of L w c \<noteq> []) bs"
  show ?case
  proof (cases "hits_of L w b = []")
    case True
    then show ?thesis
      using Cons.IH[of crashed w] by (simp add: hits_of_def[symmetric] Let_def)
  next
    case False
    have K': "filter (\<lambda>c. hits_of L w c \<noteq> []) (b # bs) = b # K"
      using False by (simp add: K_def)
    have f1: "filter (\<lambda>r. r \<notin> BulletRef ` set K) (removeAll (BulletRef b) (all_sprites w))
           = filter (\<lambda>r. r \<notin> BulletRef ` set (b # K)) (all_sprites w)"
      by (auto simp: removeAll_filter_not_eq intro: filter_cong)
    have f2: "filter (\<lambda>c. c \<notin> set K) (removeAll b (bullets w))
           = filter (\<lambda>c. c \<notin> set (b # K)) (bullets w)"
      by (auto simp: removeAll_filter_not_eq intro: filter_cong)
    have "groupcollide_loop L (b # bs) crashed w
        = groupcollide_loop L bs (crashed @ [(b, hits_of L w b)]) (kill_bullet b w)"
      using False by (simp add: hits_of_def[symmetric] Let_def)
    also have "\<dots> = ((crashed @ [(b, hits_of L w b)]) @ map (\<lambda>c. (c, hits_of L w c)) K,
        (kill_bullet b w)\<lparr> all_sprites := filter (\<lambda>r. r \<notin> BulletRef ` set K)
               (all_sprites (kill_bullet b w)),
         bullets := filter (\<lambda>c. c \<notin> set K) (bullets (kill_bullet b w)) \<rparr>)"
      by (simp add: Cons.IH hits_of_kill_bullet K_def)
    also have "\<dots> = (crashed @ map (\<lambda>c. (c, hits_of L w c)) (b # K),
        w\<lparr> all_sprites := filter (\<lambda>r. r \<notin> BulletRef ` set (b # K)) (all_sprites w),
           bullets := filter (\<lambda>c. c \<notin> set (b # K)) (bullets w) \<rparr>)"
      unfolding f1[symmetric] f2[symmetric] by (simp add: kill_bullet_def)
    finally show ?thesis unfolding K' .
  qed
qed

lemma concat_hits_nonempty:
  "concat (map snd (map (\<lambda>b. (b, h b)) (filter (\<lambda>b. h b \<noteq> []) bs))) = concat (map h bs)"
  by (induction bs) auto

lemma sum_list_map_concat:
  fixes f :: "'a \<Rightarrow> int"
  shows "(\<Sum>a\<leftarrow>concat xss. f a) = (\<Sum>xs\<leftarrow>xss. \<Sum>a\<leftarrow>xs. f a)"
  by (induction xss) simp_all

lemma sum_list_hits:
  fixes f :: "nat \<Rightarrow> int"
  shows "(\<Sum>a\<leftarrow>concat (map (\<lambda>b. filter (c b) xs) bs). f a)
       = (\<Sum>a\<leftarrow>xs. f a * int (length (filter (\<lambda>b. c b a) bs)))"
proof (induction bs)
  case Nil
  then show ?case by simp
next
  case (Cons b bs)
  have "(\<Sum>a\<leftarrow>xs. f a * int (length (filter (\<lambda>b. c b a) (b # bs))))
      = (\<Sum>a\<leftarrow>xs. (if c b a then f a else 0) + f a * int (length (filter (\<lambda>b. c b a) bs)))"
    by (intro arg_cong[where f = sum_list] map_cong) (auto simp: algebra_simps)
  also have "\<dots> = (\<Sum>a\<leftarrow>xs. if c b a then f a else 0)
      + (\<Sum>a\<leftarrow>xs. f a * int (length (filter (\<lambda>b. c b a) bs)))"
    by (simp add: sum_list_addf)
  finally show ?case using Cons.IH by (simp add: sum_list_map_filter')
qed

lemma length_filter_hits:
  "length (filter P (concat (map (\<lambda>b. filter (c b) xs) bs)))
     = (\<Sum>a\<leftarrow>xs. if P a then length (filter (\<lambda>b. c b a) bs) else 0)"
proof (induction bs)
  case Nil
  have "(\<lambda>a. if P a then length (filter (\<lambda>b. c b a) []) else 0) = (\<lambda>a. 0::nat)" by auto
  then show ?case by simp
next
  case (Cons b bs)
  have "(\<Sum>a\<leftarrow>xs. if P a then length (filter (\<lambda>b. c b a) (b # bs)) else 0)
      = (\<Sum>a\<leftarrow>xs. (if c b a \<and> P a then 1 else 0) + (if P a then length (filter (\<lambda>b. c b a) bs) else 0))"
    by (intro arg_cong[where f = sum_list] map_cong) auto
  also have "\<dots> = (\<Sum>a\<leftarrow>xs. if c b a \<and> P a then 1 else 0)
      + (\<Sum>a\<leftarrow>xs. if P a then length (filter (\<lambda>b. c b a) bs) else 0)"
    by (simp add: sum_list_addf)
  also have "(\<Sum>a\<leftarrow>xs. if c b a \<and> P a then 1 else 0) = length (filter P (filter (c b) xs))"
    by (induction xs) simp_all
  finally show ?case using Cons.IH by simp
qed

lemma world_ok_asteroid:
  "world_ok w \<Longrightarrow> a \<in> set (asteroids w) \<Longrightarrow>
     a < next_ref w \<and> size_tier (ast_objs w a) \<in> {1, 2, 3}"
  by (simp add: world_ok_def list_all_iff)

lemma bullet_hits_effect:
  assumes "world_ok w"
  shows "\<exists>w'. bullet_hits L w = Inr w'
     \<and> score w' = score w
          + (\<Sum>a\<leftarrow>asteroids w. 10 * size_tier (ast_objs w a) * int (hit_count L w a))
     \<and> score w' = score w
          + (\<Sum>b\<leftarrow>bullets w. \<Sum>a\<leftarrow>hits_of L w b. 10 * size_tier (ast_objs w a))
     \<and> next_ref w' = next_ref w
          + 2 * (\<Sum>a\<leftarrow>asteroids w. if 1 < size_tier (ast_objs w a) then hit_count L w a else 0)
     \<and> asteroids w' = filter (\<lambda>a. hit_count L w a = 0) (asteroids w)
                        @ [next_ref w ..< next_ref w']
     \<and> (\<forall>i < next_ref w. ast_objs w' i = ast_objs w i)
     \<and> (\<forall>i. next_ref w \<le> i \<and> i < next_ref w' \<longrightarrow>
           (\<exists>a \<in> set (asteroids w). 0 < hit_count L w a \<and> 1 < size_tier (ast_objs w a)
              \<and> size_tier (ast_objs w' i) = size_tier (ast_objs w a) - 1
              \<and> pos (ast_objs w' i) = pos (ast_objs w a)))
     \<and> bullets w' = filter (\<lambda>b. hits_of L w b = []) (bullets w)
     \<and> bul_objs w' = bul_objs w \<and> player w' = player w \<and> state w' = state w
     \<and> running w' = running w \<and> ticks w' = ticks w
     \<and> world_ok w'"
proof -
  define c where "c = (\<lambda>b a. colliderect L (sprite_rect (bul_objs w b)) (sprite_rect (ast_objs w a)))"
  define H where "H = concat (map (hits_of L w) (bullets w))"
  define K where "K = filter (\<lambda>b. hits_of L w b \<noteq> []) (bullets w)"
  define w1 where "w1 = w\<lparr> all_sprites := filter (\<lambda>r. r \<notin> BulletRef ` set K) (all_sprites w),
         bullets := filter (\<lambda>b. b \<notin> set K) (bullets w) \<rparr>"
  have hits_c: "hits_of L w = (\<lambda>b. filter (c b) (asteroids w))"
    by (simp add: hits_of_def spritecollide_def c_def fun_eq_iff)
  have hc: "hit_count L w = (\<lambda>a. length (filter (\<lambda>b. c b a) (bullets w)))"
    by (simp add: hit_count_def c_def fun_eq_iff)
  have gc: "groupcollide L w = (map (\<lambda>b. (b, hits_of L w b)) K, w1)"
    by (simp add: groupcollide_def groupcollide_loop_effect K_def w1_def)
  have "concat (map snd (map (\<lambda>b. (b, hits_of L w b)) K)) = H"
    unfolding K_def H_def by (rule concat_hits_nonempty)
  then have bh: "bullet_hits L w = hit_asteroids_loop L H w1"
    by (simp only: bullet_hits_def gc hits_loop_concat Let_def prod.case)
  have setH: "set H = {a \<in> set (asteroids w). 0 < hit_count L w a}"
    by (auto simp: H_def hits_c hc filter_empty_conv length_greater_0_conv[symmetric]
        simp del: length_greater_0_conv)
  have p1: "list_all (\<lambda>a. a < next_ref w1 \<and> size_tier (ast_objs w1 a) \<in> {1, 2, 3}) H"
    using world_ok_asteroid[OF assms] setH by (simp add: list_all_iff w1_def)
  have p2: "list_all (\<lambda>i. i < next_ref w1) (asteroids w1)"
    using world_ok_asteroid[OF assms] by (simp add: list_all_iff w1_def)
  have ra: "ref_allocated w1 = ref_allocated w"
    by (auto simp: fun_eq_iff ref_allocated_def w1_def split: sprite_ref.splits)
  have p3: "list_all (ref_allocated w1) (all_sprites w1)"
    using assms unfolding ra by (simp add: world_ok_def list_all_iff w1_def)
  obtain w' where h': "hit_asteroids_loop L H w1 = Inr w'"
    and n': "next_ref w' = next_ref w1 + 2 * length (filter (\<lambda>a. size_tier (ast_objs w1 a) > 1) H)"
    and st': "\<forall>i < next_ref w1. ast_objs w' i = ast_objs w1 i"
    and fr': "\<forall>i. next_ref w1 \<le> i \<and> i < next_ref w' \<longrightarrow>
                 (\<exists>a \<in> set H. 1 < size_tier (ast_objs w1 a)
                    \<and> size_tier (ast_objs w' i) = size_tier (ast_objs w1 a) - 1
                    \<and> pos (ast_objs w' i) = pos (ast_objs w1 a))"
    and as': "asteroids w' = filter (\<lambda>x. x \<notin> set H) (asteroids w1) @ [next_ref w1 ..< next_ref w']"
    and al': "all_sprites w' = filter (\<lambda>r. r \<notin> AsteroidRef ` set H) (all_sprites w1)
                               @ map AsteroidRef [next_ref w1 ..< next_ref w']"
    and sc': "score w' = score w1 + (\<Sum>a\<leftarrow>H. 10 * size_tier (ast_objs w1 a))"
    and eq': "w' = w1\<lparr> ast_objs := ast_objs w', next_ref := next_ref w', rng := rng w',
                     all_sprites := all_sprites w', asteroids := asteroids w',
                     score := score w' \<rparr>"
    using hit_asteroids_loop_effect[OF p1 p2 p3, of L] by blast
  have f1: "next_ref w1 = next_ref w" "ast_objs w1 = ast_objs w" "asteroids w1 = asteroids w"
    "score w1 = score w" "bul_objs w1 = bul_objs w" "player w1 = player w" "state w1 = state w"
    "running w1 = running w" "ticks w1 = ticks w"
    by (simp_all add: w1_def)
  have c1: "score w' = score w
          + (\<Sum>a\<leftarrow>asteroids w. 10 * size_tier (ast_objs w a) * int (hit_count L w a))"
    using sc' sum_list_hits[of "\<lambda>a. 10 * size_tier (ast_objs w a)" c "asteroids w" "bullets w"]
    by (simp add: f1 H_def hits_c hc)
  have c1b: "score w' = score w
          + (\<Sum>b\<leftarrow>bullets w. \<Sum>a\<leftarrow>hits_of L w b. 10 * size_tier (ast_objs w a))"
    using sc' by (simp add: f1 H_def sum_list_map_concat comp_def)
  have c2: "next_ref w' = next_ref w
          + 2 * (\<Sum>a\<leftarrow>asteroids w. if 1 < size_tier (ast_objs w a) then hit_count L w a else 0)"
    using n' length_filter_hits[of "\<lambda>a. 1 < size_tier (ast_objs w a)" c "asteroids w" "bullets w"]
    unfolding hc by (simp add: f1 H_def hits_c)
  have c3: "asteroids w' = filter (\<lambda>a. hit_count L w a = 0) (asteroids w)
                        @ [next_ref w ..< next_ref w']"
  proof -
    have "filter (\<lambda>x. x \<notin> set H) (asteroids w) = filter (\<lambda>a. hit_count L w a = 0) (asteroids w)"
      by (intro filter_cong) (auto simp: setH)
    then show ?thesis using as' by (simp add: f1)
  qed
  have c4: "\<forall>i < next_ref w. ast_objs w' i = ast_objs w i" using st' by (simp add: f1)
  have c5: "\<forall>i. next_ref w \<le> i \<and> i < next_ref w' \<longrightarrow>
           (\<exists>a \<in> set (asteroids w). 0 < hit_count L w a \<and> 1 < size_tier (ast_objs w a)
              \<and> size_tier (ast_objs w' i) = size_tier (ast_objs w a) - 1
              \<and> pos (ast_objs w' i) = pos (ast_objs w a))"
    using fr' by (simp add: f1 setH) blast
  have c6: "bullets w' = filter (\<lambda>b. hits_of L w b = []) (bullets w)"
  proof -
    have "bullets w' = bullets w1" by (subst eq') simp
    also have "\<dots> = filter (\<lambda>b. hits_of L w b = []) (bullets w)"
      by (auto simp: w1_def K_def intro: filter_cong)
    finally show ?thesis .
  qed
  have c7: "bul_objs w' = bul_objs w \<and> player w' = player w \<and> state w' = state w
     \<and> running w' = running w \<and> ticks w' = ticks w"
    by (subst (1 2 3 4 5) eq') (simp add: f1)
  have le: "next_ref w \<le> next_ref w'" using c2 by simp
  have nonneg: "0 \<le> (\<Sum>a\<leftarrow>asteroids w. 10 * size_tier (ast_objs w a) * int (hit_count L w a))"
  proof (intro sum_list_nonneg)
    fix x assume "x \<in> set (map (\<lambda>a. 10 * size_tier (ast_objs w a) * int (hit_count L w a)) (asteroids w))"
    then obtain a where a: "a \<in> set (asteroids w)"
      and x: "x = 10 * size_tier (ast_objs w a) * int (hit_count L w a)" by auto
    have "0 \<le> size_tier (ast_objs w a)" using world_ok_asteroid[OF assms a] by auto
    then show "0 \<le> x" unfolding x by (intro mult_nonneg_nonneg) simp_all
  qed
  have okA: "\<forall>a \<in> set (asteroids w'). a < next_ref w' \<and> size_tier (ast_objs w' a) \<in> {1, 2, 3}"
  proof
    fix a assume "a \<in> set (asteroids w')"
    then consider "a \<in> set (asteroids w)" | "next_ref w \<le> a \<and> a < next_ref w'"
      by (auto simp: c3)
    then show "a < next_ref w' \<and> size_tier (ast_objs w' a) \<in> {1, 2, 3}"
    proof cases
      case 1
      then show ?thesis using world_ok_asteroid[OF assms 1] c4 le by simp
    next
      case 2
      then obtain p where "p \<in> set (asteroids w)" "1 < size_tier (ast_objs w p)"
        "size_tier (ast_objs w' a) = size_tier (ast_objs w p) - 1"
        using c5 by blast
      then show ?thesis using world_ok_asteroid[OF assms, of p] 2 by auto
    qed
  qed
  have okB: "\<forall>r \<in> set (all_sprites w'). ref_allocated w' r"
  proof
    fix r assume "r \<in> set (all_sprites w')"
    then consider "r \<in> set (all_sprites w)" | "r \<in> AsteroidRef ` {next_ref w ..< next_ref w'}"
      by (auto simp: al' f1 w1_def)
    then show "ref_allocated w' r"
    proof cases
      case 1
      then have "ref_allocated w r" using assms by (simp add: world_ok_def list_all_iff)
      then show ?thesis using le by (auto simp: ref_allocated_def split: sprite_ref.splits)
    next
      case 2
      then show ?thesis by (auto simp: ref_allocated_def)
    qed
  qed
  have okC: "\<forall>b \<in> set (bullets w'). b < next_ref w'"
  proof
    fix b assume "b \<in> set (bullets w')"
    then have "b \<in> set (bullets w)" by (simp add: c6)
    then show "b < next_ref w'" using assms le by (auto simp: world_ok_def list_all_iff)
  qed
  have okD: "0 \<le> score w'" using c1 nonneg assms by (simp add: world_ok_def)
  have ok: "world_ok w'"
    unfolding world_ok_def list_all_iff using okA okB okC okD by blast
  show ?thesis using bh h' c1 c1b c2 c3 c4 c5 c6 c7 ok by auto
qed

lemma sample_world_ok: "world_ok sample_world"
  by (simp add: world_ok_def sample_world_def ref_allocated_def sample_asteroid_def)

lemma sample_world_hit_count: "hit_count sample_pygame sample_world 0 = 2"
  by (simp add: hit_count_def sample_world_def sample_pygame_def sample_bullet_def
      sample_asteroid_def)

text \<open>
  Claim C1, as the code has it. \<^verbatim>\<open>groupcollide\<close> removes no asteroid, so an asteroid
  overlapped by several bullets is listed once for each of them, and the loop body runs
  once per listing. In a state the loop reaches, the collision handling of one frame
  returns, and for every live asteroid \<open>a\<close> overlapped by \<open>k\<close> bullets: the score grows
  by \<open>10 * size * k\<close>; \<open>a\<close> leaves the asteroid group if \<open>k > 0\<close>; and \<open>2 * k\<close> fragments
  of the next smaller size, at the position of \<open>a\<close>, join the group if its size is above
  1. Every bullet with a collision leaves the bullet group. With \<open>k = 1\<close> that is one
  fragmentation, as the claim says; with two bullets on one large asteroid the score
  grows by 60 and four fragments appear (the counterexample).
\<close>

theorem bullet_hits_per_overlap:
  assumes "world_ok w"
  shows "\<exists>w'. bullet_hits L w = Inr w'
     \<and> score w' = score w
          + (\<Sum>a\<leftarrow>asteroids w. 10 * size_tier (ast_objs w a) * int (hit_count L w a))
     \<and> next_ref w' = next_ref w
          + 2 * (\<Sum>a\<leftarrow>asteroids w. if 1 < size_tier (ast_objs w a) then hit_count L w a else 0)
     \<and> asteroids w' = filter (\<lambda>a. hit_count L w a = 0) (asteroids w)
                        @ [next_ref w ..< next_ref w']
     \<and> (\<forall>i. next_ref w \<le> i \<and> i < next_ref w' \<longrightarrow>
           (\<exists>a \<in> set (asteroids w). 0 < hit_count L w a \<and> 1 < size_tier (ast_objs w a)
              \<and> size_tier (ast_objs w' i) = size_tier (ast_objs w a) - 1
              \<and> pos (ast_objs w' i) = pos (ast_objs w a)))
     \<and> bullets w' = filter (\<lambda>b. hits_of L w b = []) (bullets w)"
  using bullet_hits_effect[OF assms, of L] by blast

theorem bullet_hits_per_overlap_witness:
  "map_sum id score
     (bullet_hits sample_pygame
        (sample_world\<lparr> bullets := [1], all_sprites := [PlayerRef, AsteroidRef 0, BulletRef 1] \<rparr>))
     = Inr 30 \<and>
   map_sum id asteroids
     (bullet_hits sample_pygame
        (sample_world\<lparr> bullets := [1], all_sprites := [PlayerRef, AsteroidRef 0, BulletRef 1] \<rparr>))
     = Inr [3, 4] \<and>
   map_sum id bullets
     (bullet_hits sample_pygame
        (sample_world\<lparr> bullets := [1], all_sprites := [PlayerRef, AsteroidRef 0, BulletRef 1] \<rparr>))
     = Inr []"
proof -
  define w where
    "w = sample_world\<lparr> bullets := [1], all_sprites := [PlayerRef, AsteroidRef 0, BulletRef 1] \<rparr>"
  have ok: "world_ok w"
    by (simp add: w_def world_ok_def sample_world_def ref_allocated_def sample_asteroid_def)
  have hc: "hit_count sample_pygame w 0 = 1"
    by (simp add: w_def hit_count_def sample_world_def sample_pygame_def sample_bullet_def
        sample_asteroid_def)
  have ho: "hits_of sample_pygame w (Suc 0) = [0]"
    by (simp add: w_def hits_of_def spritecollide_def sample_world_def sample_pygame_def
        sample_bullet_def sample_asteroid_def)
  have v: "asteroids w = [0]" "bullets w = [1]" "score w = 0" "next_ref w = 3"
    "size_tier (ast_objs w 0) = 3"
    by (simp_all add: w_def sample_world_def sample_asteroid_def)
  have l: "[3 ..< 5] = [3, 4::nat]" by (simp add: upt_rec)
  show ?thesis
    unfolding w_def[symmetric]
    using bullet_hits_per_overlap[OF ok, of sample_pygame] by (auto simp: v hc ho l)
qed

theorem bullet_hits_double_hit_counterexample:
  "world_ok sample_world \<and> asteroids sample_world = [0] \<and>
   size_tier (ast_objs sample_world 0) = 3 \<and>
   hit_count sample_pygame sample_world 0 = 2 \<and>
   score sample_world = 0 \<and>
   map_sum id score (bullet_hits sample_pygame sample_world) = Inr 60 \<and>
   map_sum id asteroids (bullet_hits sample_pygame sample_world) = Inr [3, 4, 5, 6]"
proof -
  have v: "asteroids sample_world = [0]" "score sample_world = 0" "next_ref sample_world = 3"
    "size_tier (ast_objs sample_world 0) = 3"
    by (simp_all add: sample_world_def sample_asteroid_def)
  have l: "[3 ..< 7] = [3, 4, 5, 6::nat]" by (simp add: upt_rec)
  show ?thesis
    using bullet_hits_effect[OF sample_world_ok, of sample_pygame]
    by (auto simp: v sample_world_hit_count sample_world_ok l)
qed

subsection \<open>The player\<close>

lemma vlength_nonneg: "0 \<le> vlength v"
  by (simp add: vlength_def)

lemma vlength_vscale: "vlength (vscale v k) = \<bar>k\<bar> * vlength v"
proof -
  have "(fst v * k)\<^sup>2 + (snd v * k)\<^sup>2 = k\<^sup>2 * ((fst v)\<^sup>2 + (snd v)\<^sup>2)"
    by (simp add: power_mult_distrib algebra_simps)
  then show ?thesis
    by (simp add: vlength_def vscale_def real_sqrt_mult)
qed

lemma scale_to_length_guarded:
  assumes "6 < vlength v"
  shows "scale_to_length v 6 = Inr (vscale v (6 / vlength v))"
    and "vlength (vscale v (6 / vlength v)) = 6"
proof -
  show "scale_to_length v 6 = Inr (vscale v (6 / vlength v))"
    using assms by (simp add: scale_to_length_def VECTOR_EPSILON_def)
  show "vlength (vscale v (6 / vlength v)) = 6"
    using assms by (simp add: vlength_vscale)
qed

lemma handle_input_effect:
  assumes "max_speed self = 6"
  shows "\<exists>self'. handle_input L keys d self = Inr self'
          \<and> max_speed self' = 6
          \<and> shot_cooldown self' = shot_cooldown self
          \<and> last_shot_time self' = last_shot_time self
          \<and> pos self' = pos self
          \<and> (vlength (velocity self) \<le> 6 \<or> keys K_UP \<longrightarrow> vlength (velocity self') \<le> 6)"
proof -
  define s1 where "s1 = (if keys K_LEFT then self\<lparr> angle := py_mod (angle self + 180 * d) 360 \<rparr>
                else self)"
  define s2 where "s2 = (if keys K_RIGHT then s1\<lparr> angle := py_mod (angle s1 - 180 * d) 360 \<rparr>
                else s1)"
  define v where "v = vadd (velocity s2) (vscale (angle_to_vector (angle s2)) (thrust s2))"
  define s3 where "s3 = (if keys K_UP
      then (if 6 < vlength v then s2\<lparr> velocity := vscale v (6 / vlength v) \<rparr>
            else s2\<lparr> velocity := v \<rparr>)
      else s2)"
  have s2: "max_speed s2 = 6" "shot_cooldown s2 = shot_cooldown self"
    "last_shot_time s2 = last_shot_time self" "pos s2 = pos self" "velocity s2 = velocity self"
    using assms by (simp_all add: s1_def s2_def)
  have s3: "max_speed s3 = 6" "shot_cooldown s3 = shot_cooldown self"
    "last_shot_time s3 = last_shot_time self" "pos s3 = pos self"
    using s2 by (simp_all add: s3_def)
  have v3: "vlength (velocity self) \<le> 6 \<or> keys K_UP \<Longrightarrow> vlength (velocity s3) \<le> 6"
    using scale_to_length_guarded(2)[of v] s2 by (auto simp: s3_def)
  define s4 where "s4 = s3\<lparr> velocity := vscale (velocity s3) 0.99 \<rparr>"
  define self' where "self' = s4\<lparr> sprite_image := transform_rotate L (original_image s4) (angle s4),
      sprite_rect := get_rect L (transform_rotate L (original_image s4) (angle s4))
                       (rect_center L (sprite_rect s4)) \<rparr>"
  have h: "handle_input L keys d self = Inr self'"
    using assms
    by (simp add: handle_input_def Let_def s1_def s2_def s3_def s4_def self'_def v_def
        scale_to_length_guarded(1))
  have "vlength (velocity self') = 0.99 * vlength (velocity s3)"
    by (simp add: self'_def s4_def vlength_vscale)
  then have "vlength (velocity s3) \<le> 6 \<Longrightarrow> vlength (velocity self') \<le> 6"
    using vlength_nonneg[of "velocity s3"] by simp
  then show ?thesis using h s3 v3 by (auto simp: self'_def s4_def)
qed

text \<open>
  Claim C9. \<^verbatim>\<open>handle_input\<close> returns for every player with the constructor's
  \<^verbatim>\<open>max_speed = 6\<close>, every combination of held keys and every time step, a player at
  rest included. \<^verbatim>\<open>scale_to_length\<close> does raise on the zero vector, but line 124 calls
  it only on a velocity longer than \<^verbatim>\<open>max_speed\<close>, where it returns a vector of that
  length.
\<close>

theorem handle_input_total:
  assumes "max_speed self = 6"
  shows "(\<exists>self'. handle_input L keys d self = Inr self') \<and>
         (\<forall>v. max_speed self < vlength v \<longrightarrow>
            (\<exists>v'. scale_to_length v (max_speed self) = Inr v' \<and> vlength v' = max_speed self)) \<and>
         scale_to_length (0, 0) (max_speed self) = Inl ValueError"
proof -
  have "\<exists>self'. handle_input L keys d self = Inr self'"
    using handle_input_effect[OF assms] by blast
  moreover have "\<forall>v. max_speed self < vlength v \<longrightarrow>
            (\<exists>v'. scale_to_length v (max_speed self) = Inr v' \<and> vlength v' = max_speed self)"
    using scale_to_length_guarded assms by simp
  moreover have "scale_to_length (0, 0) (max_speed self) = Inl ValueError"
    by (simp add: scale_to_length_def vlength_def VECTOR_EPSILON_def)
  ultimately show ?thesis by blast
qed

theorem handle_input_total_witness:
  "\<exists>self'. handle_input sample_pygame (\<lambda>k. True) (1 / 60) (Player_init sample_pygame (400, 300))
      = Inr self'"
proof -
  have "max_speed (Player_init sample_pygame (400, 300)) = 6"
    by (simp add: Player_init_def Let_def player.defs game_object.defs)
  then show ?thesis
    using handle_input_total[of "Player_init sample_pygame (400, 300)" sample_pygame "\<lambda>k. True" "1 / 60"]
    by blast
qed

lemma vlength_cmod: "vlength v = cmod (Complex (fst v) (snd v))"
  by (simp add: vlength_def cmod_def)

lemma vlength_angle_to_vector: "vlength (angle_to_vector a) = 1"
  by (simp add: vlength_def angle_to_vector_def Let_def)

lemma vlength_triangle: "vlength u - vlength v \<le> vlength (vadd u v)"
proof -
  have "Complex (fst (vadd u v)) (snd (vadd u v))
      = Complex (fst u) (snd u) + Complex (fst v) (snd v)"
    by (simp add: vadd_def complex_eq_iff)
  then show ?thesis
    using norm_diff_ineq[of "Complex (fst u) (snd u)" "Complex (fst v) (snd v)"]
    by (simp add: vlength_cmod)
qed

lemma bullet_velocity_long:
  assumes "vlength (velocity self) \<le> 6"
  shows "4 \<le> vlength (vadd (vscale (angle_to_vector (angle self)) 10) (velocity self))"
proof -
  have "vlength (vscale (angle_to_vector (angle self)) 10) = 10"
    by (simp add: vlength_vscale vlength_angle_to_vector)
  then show ?thesis
    using vlength_triangle[of "vscale (angle_to_vector (angle self)) 10" "velocity self"] assms
    by simp
qed

text \<open>
  Claim C8. \<^verbatim>\<open>can_shoot(now)\<close> holds exactly when \<^verbatim>\<open>now - last_shot_time\<close> is at least
  the cooldown, which the constructor sets to 250. \<^verbatim>\<open>shoot(now)\<close> changes nothing of
  the player but \<^verbatim>\<open>last_shot_time\<close>, which becomes \<^verbatim>\<open>now\<close>; the bullet it returns is at
  the player's position plus the heading's direction times half the width of the
  player's rectangle (the integer quotient \<^verbatim>\<open>rect.width // 2\<close>), and its velocity is the
  direction times 10 plus the player's velocity. The last holds if pygame takes that sum
  for a true value or it is the zero vector: \<^verbatim>\<open>GameObject.__init__\<close> replaces a false
  velocity by the zero vector. For a player within the speed clamp the sum has length
  at least 4, far from the zero vector.
\<close>

theorem can_shoot_and_shoot:
  "(can_shoot self now \<longleftrightarrow> now - last_shot_time self \<ge> shot_cooldown self) \<and>
   shot_cooldown (Player_init L p) = 250 \<and>
   fst (shoot L now t self) = self\<lparr> last_shot_time := now \<rparr> \<and>
   pos (snd (shoot L now t self))
     = vadd (pos self)
         (vscale (angle_to_vector (angle self)) (real_of_int (width (sprite_rect self) div 2))) \<and>
   (vector_nonzero L (vadd (vscale (angle_to_vector (angle self)) 10) (velocity self)) \<or>
    vadd (vscale (angle_to_vector (angle self)) 10) (velocity self) = (0, 0) \<longrightarrow>
      velocity (snd (shoot L now t self))
        = vadd (vscale (angle_to_vector (angle self)) 10) (velocity self)) \<and>
   (vlength (velocity self) \<le> 6 \<longrightarrow>
      4 \<le> vlength (vadd (vscale (angle_to_vector (angle self)) 10) (velocity self)))"
  using bullet_velocity_long[of self]
  by (auto simp: can_shoot_def Player_init_def shoot_def Bullet_init_def GameObject_init_def
      Let_def player.defs bullet.defs game_object.defs)

theorem can_shoot_and_shoot_witness:
  "can_shoot (Player_init sample_pygame (400, 300)) 250 \<and>
   \<not> can_shoot (Player_init sample_pygame (400, 300)) 249 \<and>
   last_shot_time (fst (shoot sample_pygame 250 251 (Player_init sample_pygame (400, 300)))) = 250 \<and>
   pos (snd (shoot sample_pygame 250 251 (Player_init sample_pygame (400, 300)))) = (430, 300) \<and>
   velocity (snd (shoot sample_pygame 250 251 (Player_init sample_pygame (400, 300)))) = (10, 0)"
  using can_shoot_and_shoot[of "Player_init sample_pygame (400, 300)" 250 sample_pygame "(400, 300)" 251]
    can_shoot_and_shoot[of "Player_init sample_pygame (400, 300)" 249 sample_pygame "(400, 300)" 251]
  by (simp add: Player_init_def Let_def player.defs game_object.defs GameObject_init_def
      sample_pygame_def angle_to_vector_def vadd_def vscale_def)

subsection \<open>reset_game\<close>

lemma spawn_position_safe:
  assumes "spawn_position pp g = Some r"
  shows "200 < distance_to (fst r) pp"
  by (rule spawn_position.raw_induct[OF _ assms]) (auto simp: Let_def split: if_splits)

lemma spawn_position_first:
  assumes "200 < distance_to (real_of_int (fst (randrange 800 g)),
                    real_of_int (fst (randrange 600 (stl g)))) pp"
  shows "spawn_position pp g
       = Some ((real_of_int (fst (randrange 800 g)), real_of_int (fst (randrange 600 (stl g)))),
               stl (stl g))"
  using assms
  by (subst spawn_position.simps)
     (simp add: Let_def SCREEN_WIDTH_def SCREEN_HEIGHT_def randrange_def)

lemma spawn_position_skip:
  assumes "\<not> 200 < distance_to (real_of_int (fst (randrange 800 g)),
                    real_of_int (fst (randrange 600 (stl g)))) pp"
  shows "spawn_position pp g = spawn_position pp (stl (stl g))"
  using assms
  by (subst spawn_position.simps)
     (simp add: Let_def SCREEN_WIDTH_def SCREEN_HEIGHT_def randrange_def)

text \<open>The loop ends as soon as some pair of draws lies outside the safe zone.\<close>

lemma spawn_position_terminates:
  assumes "200 < distance_to (real_of_int (fst (randrange 800 (sdrop (2 * k) g))),
                    real_of_int (fst (randrange 600 (stl (sdrop (2 * k) g))))) pp"
  shows "\<exists>r. spawn_position pp g = Some r"
  using assms
proof (induction k arbitrary: g)
  case 0
  then show ?case using spawn_position_first[where g = g and pp = pp] by simp
next
  case (Suc k)
  show ?case
  proof (cases "200 < distance_to (real_of_int (fst (randrange 800 g)),
                    real_of_int (fst (randrange 600 (stl g)))) pp")
    case True
    then show ?thesis using spawn_position_first[where g = g and pp = pp] by simp
  next
    case False
    have "\<exists>r. spawn_position pp (stl (stl g)) = Some r"
      using Suc.IH[of "stl (stl g)"] Suc.prems by simp
    then show ?thesis using spawn_position_skip[OF False] by simp
  qed
qed

lemma new_Asteroid_3:
  "\<exists>a g'. new_Asteroid L p 3 w =
            Inr (next_ref w, w\<lparr> ast_objs := (ast_objs w)(next_ref w := a),
                                next_ref := Suc (next_ref w), rng := g' \<rparr>)
          \<and> size_tier a = 3 \<and> pos a = p"
  using new_Asteroid_ok[of 3 L p w] by simp

lemma spawn_asteroids_effect:
  assumes "spawn_asteroids L n p w = Some r"
    "list_all (\<lambda>i. i < next_ref w) (asteroids w)"
    "list_all (ref_allocated w) (all_sprites w)"
  shows "\<exists>w'. r = Inr w'
       \<and> next_ref w' = next_ref w + n
       \<and> (\<forall>i < next_ref w. ast_objs w' i = ast_objs w i)
       \<and> (\<forall>i. next_ref w \<le> i \<and> i < next_ref w' \<longrightarrow>
             size_tier (ast_objs w' i) = 3 \<and> 200 < distance_to (pos (ast_objs w' i)) (pos p))
       \<and> asteroids w' = asteroids w @ [next_ref w ..< next_ref w']
       \<and> all_sprites w' = all_sprites w @ map AsteroidRef [next_ref w ..< next_ref w']
       \<and> w' = w\<lparr> ast_objs := ast_objs w', next_ref := next_ref w', rng := rng w',
                  all_sprites := all_sprites w', asteroids := asteroids w' \<rparr>"
  using assms
proof (induction n arbitrary: w)
  case 0
  then show ?case by auto
next
  case (Suc n)
  from Suc.prems(1) obtain q g where sp: "spawn_position (pos p) (rng w) = Some (q, g)"
    by (auto split: option.splits)
  have far: "200 < distance_to q (pos p)" using spawn_position_safe[OF sp] by simp
  obtain a g' where na: "new_Asteroid L q 3 (w\<lparr> rng := g \<rparr>) =
            Inr (next_ref w, w\<lparr> rng := g, ast_objs := (ast_objs w)(next_ref w := a),
                                next_ref := Suc (next_ref w), rng := g' \<rparr>)"
    and a: "size_tier a = 3" "pos a = q"
    using new_Asteroid_3[of L q "w\<lparr> rng := g \<rparr>"] by auto
  define w1 where "w1 = w\<lparr> rng := g, ast_objs := (ast_objs w)(next_ref w := a),
                                next_ref := Suc (next_ref w), rng := g' \<rparr>"
  have nin: "next_ref w \<notin> set (asteroids w)" "AsteroidRef (next_ref w) \<notin> set (all_sprites w)"
    using Suc.prems(2,3) by (auto simp: list_all_iff ref_allocated_def)
  define w2 where "w2 = add_fragment (next_ref w) w1"
  have w2: "w2 = w1\<lparr> all_sprites := all_sprites w @ [AsteroidRef (next_ref w)],
                     asteroids := asteroids w @ [next_ref w] \<rparr>"
    using nin by (simp add: w2_def add_fragment_def group_add_def w1_def)
  have rec: "spawn_asteroids L n p w2 = Some r"
    using Suc.prems(1) sp na by (simp add: w1_def[symmetric] w2_def)
  have p2: "list_all (\<lambda>i. i < next_ref w2) (asteroids w2)"
    using Suc.prems(2) by (auto simp: w2 w1_def list_all_iff)
  have p3: "list_all (ref_allocated w2) (all_sprites w2)"
    using Suc.prems(3)
    by (auto simp: w2 w1_def list_all_iff ref_allocated_def split: sprite_ref.splits)
  obtain w' where r: "r = Inr w'"
    and n': "next_ref w' = next_ref w2 + n"
    and st': "\<forall>i < next_ref w2. ast_objs w' i = ast_objs w2 i"
    and fr': "\<forall>i. next_ref w2 \<le> i \<and> i < next_ref w' \<longrightarrow>
             size_tier (ast_objs w' i) = 3 \<and> 200 < distance_to (pos (ast_objs w' i)) (pos p)"
    and as': "asteroids w' = asteroids w2 @ [next_ref w2 ..< next_ref w']"
    and al': "all_sprites w' = all_sprites w2 @ map AsteroidRef [next_ref w2 ..< next_ref w']"
    and eq': "w' = w2\<lparr> ast_objs := ast_objs w', next_ref := next_ref w', rng := rng w',
                  all_sprites := all_sprites w', asteroids := asteroids w' \<rparr>"
    using Suc.IH[OF rec p2 p3] by blast
  have n2: "next_ref w2 = Suc (next_ref w)" by (simp add: w2 w1_def)
  have o2: "ast_objs w2 = (ast_objs w)(next_ref w := a)" by (simp add: w2 w1_def)
  have upt: "next_ref w # [Suc (next_ref w) ..< next_ref w'] = [next_ref w ..< next_ref w']"
    using n' n2 by (simp add: upt_rec)
  have c2: "next_ref w' = next_ref w + Suc n" using n' n2 by simp
  have c3: "\<forall>i < next_ref w. ast_objs w' i = ast_objs w i" using st' n2 o2 by simp
  have c4: "\<forall>i. next_ref w \<le> i \<and> i < next_ref w' \<longrightarrow>
             size_tier (ast_objs w' i) = 3 \<and> 200 < distance_to (pos (ast_objs w' i)) (pos p)"
  proof (intro allI impI)
    fix i assume i: "next_ref w \<le> i \<and> i < next_ref w'"
    show "size_tier (ast_objs w' i) = 3 \<and> 200 < distance_to (pos (ast_objs w' i)) (pos p)"
    proof (cases "i = next_ref w")
      case True
      then have "ast_objs w' i = a" using st' n2 o2 by simp
      then show ?thesis using a far by simp
    next
      case False
      then show ?thesis using fr' i n2 by simp
    qed
  qed
  have c5: "asteroids w' = asteroids w @ [next_ref w ..< next_ref w']"
    using as' upt n2 by (simp add: w2)
  have c6: "all_sprites w' = all_sprites w @ map AsteroidRef [next_ref w ..< next_ref w']"
  proof -
    have "all_sprites w' = all_sprites w @ AsteroidRef (next_ref w) # map AsteroidRef [Suc (next_ref w) ..< next_ref w']"
      using al' n2 by (simp add: w2)
    also have "\<dots> = all_sprites w @ map AsteroidRef (next_ref w # [Suc (next_ref w) ..< next_ref w'])"
      by simp
    finally show ?thesis unfolding upt .
  qed
  have c7: "w' = w\<lparr> ast_objs := ast_objs w', next_ref := next_ref w', rng := rng w',
                  all_sprites := all_sprites w', asteroids := asteroids w' \<rparr>"
    by (subst eq') (simp add: w2 w1_def)
  show ?case using r c2 c3 c4 c5 c6 c7 by blast
qed

lemma reset_game_effect:
  assumes "reset_game L w = Some r"
  shows "\<exists>w'. r = Inr (Player_init L (400, 300), 0, w')
       \<and> next_ref w' = next_ref w + 5
       \<and> (\<forall>i < next_ref w. ast_objs w' i = ast_objs w i)
       \<and> (\<forall>i. next_ref w \<le> i \<and> i < next_ref w' \<longrightarrow>
             size_tier (ast_objs w' i) = 3
             \<and> 200 < distance_to (pos (ast_objs w' i)) (400, 300))
       \<and> asteroids w' = [next_ref w ..< next_ref w']
       \<and> all_sprites w' = PlayerRef # map AsteroidRef [next_ref w ..< next_ref w']
       \<and> bullets w' = []
       \<and> w' = w\<lparr> ast_objs := ast_objs w', next_ref := next_ref w', rng := rng w',
                  all_sprites := all_sprites w', asteroids := asteroids w', bullets := [] \<rparr>"
proof -
  define p where "p = Player_init L (400, 300)"
  define w2 where "w2 = w\<lparr> asteroids := [], bullets := [], all_sprites := [PlayerRef] \<rparr>"
  have c: "(real_of_int SCREEN_WIDTH / 2, real_of_int SCREEN_HEIGHT / 2) = (400, 300)"
    by (simp add: SCREEN_WIDTH_def SCREEN_HEIGHT_def)
  have pp: "pos p = (400, 300)"
    by (simp add: p_def Player_init_def Let_def GameObject_init_def game_object.defs player.defs)
  have rg: "reset_game L w = (case spawn_asteroids L 5 p w2 of None \<Rightarrow> None
         | Some (Inl e) \<Rightarrow> Some (Inl e) | Some (Inr w3) \<Rightarrow> Some (Inr (p, 0, w3)))"
    unfolding reset_game_def Let_def p_def w2_def c
    by (simp add: group_add_def)
  then obtain r2 where sp: "spawn_asteroids L 5 p w2 = Some r2"
    using assms by (auto split: option.splits)
  have p2: "list_all (\<lambda>i. i < next_ref w2) (asteroids w2)" by (simp add: w2_def)
  have p3: "list_all (ref_allocated w2) (all_sprites w2)" by (simp add: w2_def ref_allocated_def)
  obtain w' where r2: "r2 = Inr w'"
    and n': "next_ref w' = next_ref w2 + 5"
    and st': "\<forall>i < next_ref w2. ast_objs w' i = ast_objs w2 i"
    and fr': "\<forall>i. next_ref w2 \<le> i \<and> i < next_ref w' \<longrightarrow>
             size_tier (ast_objs w' i) = 3 \<and> 200 < distance_to (pos (ast_objs w' i)) (pos p)"
    and as': "asteroids w' = asteroids w2 @ [next_ref w2 ..< next_ref w']"
    and al': "all_sprites w' = all_sprites w2 @ map AsteroidRef [next_ref w2 ..< next_ref w']"
    and eq': "w' = w2\<lparr> ast_objs := ast_objs w', next_ref := next_ref w', rng := rng w',
                  all_sprites := all_sprites w', asteroids := asteroids w' \<rparr>"
    using spawn_asteroids_effect[OF sp p2 p3] by blast
  have r: "r = Inr (p, 0, w')" using assms rg sp r2 by simp
  have b: "bullets w' = []" by (subst eq') (simp add: w2_def)
  have e: "w' = w\<lparr> ast_objs := ast_objs w', next_ref := next_ref w', rng := rng w',
                  all_sprites := all_sprites w', asteroids := asteroids w', bullets := [] \<rparr>"
    by (subst eq') (simp add: w2_def)
  show ?thesis
    using r n' st' fr' as' al' b e pp by (simp add: w2_def p_def[symmetric])
qed

lemma Player_init_fields:
  "pos (Player_init L p) = p" "velocity (Player_init L p) = (0, 0)"
  "max_speed (Player_init L p) = 6" "shot_cooldown (Player_init L p) = 250"
  by (simp_all add: Player_init_def Let_def GameObject_init_def game_object.defs player.defs)

lemma fresh_sessionI:
  assumes "next_ref w' = n + 5"
    "\<forall>i. n \<le> i \<and> i < next_ref w' \<longrightarrow>
             size_tier (ast_objs w' i) = 3
             \<and> 200 < distance_to (pos (ast_objs w' i)) (400, 300)"
    "asteroids w' = [n ..< next_ref w']"
    "all_sprites w' = PlayerRef # map AsteroidRef [n ..< next_ref w']"
    "bullets w' = []" "score w' = 0" "player w' = Player_init L (400, 300)"
  shows "fresh_session w'"
  using assms by (simp add: fresh_session_def Player_init_fields list_all_iff)

text \<open>What the search leaves of the draws is a suffix of them.\<close>

lemma spawn_position_suffix:
  assumes "spawn_position pp g = Some r"
  shows "\<exists>m. snd r = sdrop m g"
proof (rule spawn_position.raw_induct[OF _ assms])
  fix sp pp g r
  assume IH: "\<And>pp g r. sp pp g = Some r \<Longrightarrow> \<exists>m. snd r = sdrop m g"
    and st: "(let xg = randrange (nat SCREEN_WIDTH) g;
               yg = randrange (nat SCREEN_HEIGHT) (snd xg);
               p = (real_of_int (fst xg), real_of_int (fst yg))
             in if distance_to p pp > 200 then Some (p, snd yg) else sp pp (snd yg)) = Some r"
  have s2: "\<And>m. sdrop m (stl (stl g)) = sdrop (Suc (Suc m)) g" by simp
  from st consider "snd r = stl (stl g)" | "sp pp (stl (stl g)) = Some r"
    by (auto simp: Let_def randrange_def split: if_splits)
  then show "\<exists>m. snd r = sdrop m g"
  proof cases
    case 1
    then have "snd r = sdrop (Suc (Suc 0)) g" by simp
    then show ?thesis by (rule exI)
  next
    case 2
    from IH[OF 2] obtain m where "snd r = sdrop m (stl (stl g))" by blast
    then have "snd r = sdrop (Suc (Suc m)) g" by (simp only: s2)
    then show ?thesis by (rule exI)
  qed
qed

lemma rng_fair_sdrop: "rng_fair g \<Longrightarrow> rng_fair (sdrop m g)"
  unfolding rng_fair_def
proof (intro allI)
  fix n assume a: "\<forall>n. \<exists>k. safe_draws (sdrop (n + 2 * k) g)"
  from a obtain k where "safe_draws (sdrop ((m + n) + 2 * k) g)" by blast
  then have "safe_draws (sdrop (n + 2 * k) (sdrop m g))" by (simp add: add.assoc)
  then show "\<exists>k. safe_draws (sdrop (n + 2 * k) (sdrop m g))" by (rule exI)
qed

lemma rng_fair_stl: "rng_fair g \<Longrightarrow> rng_fair (stl g)"
  using rng_fair_sdrop[of g 1] by simp

lemma spawn_position_fair:
  assumes "rng_fair g"
  shows "\<exists>q g'. spawn_position (400, 300) g = Some (q, g') \<and> rng_fair g'
           \<and> 200 < distance_to q (400, 300)"
proof -
  from assms obtain k where "safe_draws (sdrop (2 * k) g)"
    unfolding rng_fair_def by (metis add_0)
  then obtain r where r: "spawn_position (400, 300) g = Some r"
    using spawn_position_terminates[of k g "(400, 300)"] by (auto simp: safe_draws_def)
  obtain m where "snd r = sdrop m g" using spawn_position_suffix[OF r] by blast
  then have "rng_fair (snd r)" using rng_fair_sdrop[OF assms] by simp
  moreover have "200 < distance_to (fst r) (400, 300)" using spawn_position_safe[OF r] .
  ultimately show ?thesis using r by (cases r) auto
qed

text \<open>One search ends exactly when some later pair of draws lies outside the safe zone.\<close>

lemma spawn_position_found:
  assumes "spawn_position (400, 300) g = Some r"
  shows "\<exists>k. safe_draws (sdrop (2 * k) g)"
proof -
  have "\<forall>pp g r. spawn_position pp g = Some r \<longrightarrow> pp = (400, 300) \<longrightarrow> (\<exists>k. safe_draws (sdrop (2 * k) g))"
  proof (intro allI impI)
    fix pp g r
    assume a: "spawn_position pp g = Some r" and p: "pp = (400, 300)"
    have "pp = (400, 300) \<longrightarrow> (\<exists>k. safe_draws (sdrop (2 * k) g))"
    proof (rule spawn_position.raw_induct[OF _ a])
      fix sp pp g r
      assume IH: "\<And>pp g r. sp pp g = Some r \<Longrightarrow> pp = (400, 300) \<longrightarrow> (\<exists>k. safe_draws (sdrop (2 * k) g))"
        and st: "(let xg = randrange (nat SCREEN_WIDTH) g;
               yg = randrange (nat SCREEN_HEIGHT) (snd xg);
               p = (real_of_int (fst xg), real_of_int (fst yg))
             in if distance_to p pp > 200 then Some (p, snd yg) else sp pp (snd yg)) = Some r"
      show "pp = (400, 300) \<longrightarrow> (\<exists>k. safe_draws (sdrop (2 * k) g))"
      proof
        assume p: "pp = (400, 300)"
        show "\<exists>k. safe_draws (sdrop (2 * k) g)"
        proof (cases "safe_draws g")
          case True
          then have "safe_draws (sdrop (2 * 0) g)" by simp
          then show ?thesis by (rule exI)
        next
          case False
          then have "sp pp (stl (stl g)) = Some r"
            using st p
            by (simp add: Let_def randrange_def safe_draws_def SCREEN_WIDTH_def SCREEN_HEIGHT_def)
          from IH[OF this] p obtain k where "safe_draws (sdrop (2 * k) (stl (stl g)))" by blast
          then have "safe_draws (sdrop (2 * Suc k) g)" by simp
          then show ?thesis by (rule exI)
        qed
      qed
    qed
    then show "\<exists>k. safe_draws (sdrop (2 * k) g)" using p by simp
  qed
  then show ?thesis using assms by blast
qed

lemma spawn_position_returns_iff:
  "(\<exists>r. spawn_position (400, 300) g = Some r) \<longleftrightarrow> (\<exists>k. safe_draws (sdrop (2 * k) g))"
proof
  assume "\<exists>r. spawn_position (400, 300) g = Some r"
  then show "\<exists>k. safe_draws (sdrop (2 * k) g)" using spawn_position_found by blast
next
  assume "\<exists>k. safe_draws (sdrop (2 * k) g)"
  then obtain k where "safe_draws (sdrop (2 * k) g)" by blast
  then show "\<exists>r. spawn_position (400, 300) g = Some r"
    using spawn_position_terminates[of k g "(400, 300)"] by (simp add: safe_draws_def)
qed

lemma new_Asteroid_rng:
  assumes "new_Asteroid L p sz w = Inr (a, w')"
  shows "rng w' = stl (stl (stl (rng w)))"
  using assms
  by (auto simp: new_Asteroid_def Asteroid_init_def uniform_def Let_def
           split: sum.splits prod.splits)

lemma spawn_asteroids_fair:
  assumes "rng_fair (rng w)" "pos p = (400, 300)"
  shows "\<exists>w'. spawn_asteroids L n p w = Some (Inr w') \<and> rng_fair (rng w')"
  using assms
proof (induction n arbitrary: w)
  case 0
  then show ?case by simp
next
  case (Suc n)
  obtain q g where sp: "spawn_position (pos p) (rng w) = Some (q, g)" and fg: "rng_fair g"
    using spawn_position_fair[OF Suc.prems(1)] Suc.prems(2) by auto
  obtain a w1 where na: "new_Asteroid L q 3 (w\<lparr> rng := g \<rparr>) = Inr (a, w1)"
    using new_Asteroid_3[of L q "w\<lparr> rng := g \<rparr>"] by auto
  have "rng w1 = stl (stl (stl g))" using new_Asteroid_rng[OF na] by simp
  then have "rng_fair (rng (add_fragment a w1))"
    using fg by (simp add: add_fragment_def rng_fair_stl)
  then obtain w' where w': "spawn_asteroids L n p (add_fragment a w1) = Some (Inr w')"
      "rng_fair (rng w')"
    using Suc.IH Suc.prems(2) by blast
  have "spawn_asteroids L (Suc n) p w = Some (Inr w')"
    using sp na w'(1) by simp
  then show ?case using w'(2) by blast
qed

lemma reset_game_fair:
  assumes "rng_fair (rng w)"
  shows "\<exists>w'. reset_game L w = Some (Inr (Player_init L (400, 300), 0, w')) \<and> rng_fair (rng w')"
proof -
  define p where "p = Player_init L (real_of_int SCREEN_WIDTH / 2, real_of_int SCREEN_HEIGHT / 2)"
  define w2 where "w2 = w\<lparr> all_sprites := [], asteroids := [], bullets := [] \<rparr>
      \<lparr> all_sprites := group_add PlayerRef [] \<rparr>"
  have pp: "pos p = (400, 300)"
    by (simp add: p_def Player_init_fields SCREEN_WIDTH_def SCREEN_HEIGHT_def)
  have "rng_fair (rng w2)" using assms by (simp add: w2_def)
  then obtain w3 where "spawn_asteroids L 5 p w2 = Some (Inr w3)" "rng_fair (rng w3)"
    using spawn_asteroids_fair[OF _ pp] by blast
  then show ?thesis
    by (simp add: reset_game_def Let_def p_def[symmetric] w2_def[symmetric])
       (simp add: p_def SCREEN_WIDTH_def SCREEN_HEIGHT_def)
qed

lemma sdrop_sconst_0: "sdrop n (sconst (0::nat)) = sconst 0"
  by (induction n) simp_all

lemma safe_draws_zero: "safe_draws (sconst 0)"
proof -
  have "(200::real)\<^sup>2 < 250000" by simp
  then have "200 < sqrt 250000" by (rule real_less_rsqrt)
  then show ?thesis by (simp add: safe_draws_def randrange_def distance_to_def)
qed

lemma sample_rng_fair: "rng_fair sample_rng"
  unfolding rng_fair_def
proof
  fix n
  have "sdrop (n + 2 * 1) sample_rng = sconst 0"
    by (simp add: sample_rng_def sdrop_sconst_0)
  then have "safe_draws (sdrop (n + 2 * 1) sample_rng)" by (simp only: safe_draws_zero)
  then show "\<exists>k. safe_draws (sdrop (n + 2 * k) sample_rng)" by (rule exI)
qed

lemma sample_rng_first: "\<not> safe_draws sample_rng"
  by (simp add: safe_draws_def sample_rng_def randrange_def distance_to_def)

lemma restart_fresh_if_returns:
  assumes "state w = GAME_OVER" "handle_event L (KEYDOWN K_r) w = Some (Inr w')"
  shows "fresh_session w' \<and> state w' = PLAYING"
proof -
  from assms obtain r where rg: "reset_game L w = Some r"
    by (cases "reset_game L w") (auto simp: handle_event_def)
  obtain w1 where r: "r = Inr (Player_init L (400, 300), 0, w1)"
    and n: "next_ref w1 = next_ref w + 5"
    and fr: "\<forall>i. next_ref w \<le> i \<and> i < next_ref w1 \<longrightarrow>
             size_tier (ast_objs w1 i) = 3
             \<and> 200 < distance_to (pos (ast_objs w1 i)) (400, 300)"
    and a: "asteroids w1 = [next_ref w ..< next_ref w1]"
    and al: "all_sprites w1 = PlayerRef # map AsteroidRef [next_ref w ..< next_ref w1]"
    and b: "bullets w1 = []"
    using reset_game_effect[OF rg] by blast
  have w': "w' = w1\<lparr> player := Player_init L (400, 300), score := 0, state := PLAYING \<rparr>"
    using assms rg r by (simp add: handle_event_def)
  have "fresh_session w'"
    by (rule fresh_sessionI[where n = "next_ref w" and L = L]) (simp_all add: w' n fr a al b)
  then show ?thesis by (simp add: w')
qed

lemma startup_fresh_if_returns:
  assumes "startup L objs g t = Some (Inr w')"
  shows "fresh_session w' \<and> state w' = START"
proof -
  define w0 where "w0 = \<lparr> ast_objs = (\<lambda>_. fst objs), bul_objs = (\<lambda>_. snd objs), next_ref = 0,
                 rng = g, ticks = t, all_sprites = [], asteroids = [], bullets = [],
                 player = Player_init L (0, 0), score = 0, state = START, running = True \<rparr>"
  from assms obtain r where rg: "reset_game L w0 = Some r"
    by (auto simp: startup_def Let_def w0_def split: option.splits)
  obtain w1 where r: "r = Inr (Player_init L (400, 300), 0, w1)"
    and n: "next_ref w1 = next_ref w0 + 5"
    and fr: "\<forall>i. next_ref w0 \<le> i \<and> i < next_ref w1 \<longrightarrow>
             size_tier (ast_objs w1 i) = 3
             \<and> 200 < distance_to (pos (ast_objs w1 i)) (400, 300)"
    and a: "asteroids w1 = [next_ref w0 ..< next_ref w1]"
    and al: "all_sprites w1 = PlayerRef # map AsteroidRef [next_ref w0 ..< next_ref w1]"
    and b: "bullets w1 = []"
    using reset_game_effect[OF rg] by blast
  have w': "w' = w1\<lparr> player := Player_init L (400, 300), score := 0, state := START,
                      running := True \<rparr>"
    using assms rg r by (simp add: startup_def Let_def w0_def[symmetric])
  have "fresh_session w'"
    by (rule fresh_sessionI[where n = "next_ref w0" and L = L]) (simp_all add: w' n fr a al b)
  then show ?thesis by (simp add: w')
qed

lemma restart_returns:
  assumes "state w = GAME_OVER" "rng_fair (rng w)"
  shows "\<exists>w'. handle_event L (KEYDOWN K_r) w = Some (Inr w') \<and> rng_fair (rng w')"
proof -
  obtain w1 where "reset_game L w = Some (Inr (Player_init L (400, 300), 0, w1))"
    "rng_fair (rng w1)"
    using reset_game_fair[OF assms(2)] by blast
  then show ?thesis using assms(1) by (simp add: handle_event_def)
qed

lemma startup_returns:
  assumes "rng_fair g"
  shows "\<exists>w'. startup L objs g t = Some (Inr w') \<and> rng_fair (rng w')"
proof -
  define w0 where "w0 = \<lparr> ast_objs = (\<lambda>_. fst objs), bul_objs = (\<lambda>_. snd objs), next_ref = 0,
                 rng = g, ticks = t, all_sprites = [], asteroids = [], bullets = [],
                 player = Player_init L (0, 0), score = 0, state = START, running = True \<rparr>"
  have "rng_fair (rng w0)" using assms by (simp add: w0_def)
  then obtain w1 where "reset_game L w0 = Some (Inr (Player_init L (400, 300), 0, w1))"
    "rng_fair (rng w1)"
    using reset_game_fair by blast
  then show ?thesis by (simp add: startup_def Let_def w0_def[symmetric])
qed

lemma restart_never_raises:
  "state w = GAME_OVER \<Longrightarrow> handle_event L (KEYDOWN K_r) w \<noteq> Some (Inl e)"
  using reset_game_effect[of L w]
  by (cases "reset_game L w") (auto simp: handle_event_def)

lemma startup_never_raises: "startup L objs g t \<noteq> Some (Inl e)"
proof -
  define w0 where "w0 = \<lparr> ast_objs = (\<lambda>_. fst objs), bul_objs = (\<lambda>_. snd objs), next_ref = 0,
                 rng = g, ticks = t, all_sprites = [], asteroids = [], bullets = [],
                 player = Player_init L (0, 0), score = 0, state = START, running = True \<rparr>"
  show ?thesis
    using reset_game_effect[of L w0]
    by (cases "reset_game L w0") (auto simp: startup_def Let_def w0_def[symmetric])
qed

text \<open>
  Claim C7. The restart from \<open>GAME_OVER\<close> (key R) and the start of the program leave a
  fresh session: the score is 0; \<open>all_sprites\<close> holds one player and the asteroids, the
  player at (400, 300) with zero velocity; there are exactly five asteroids, distinct
  objects of size 3, each farther than 200 from the player's position; and there is no
  bullet. The state is \<open>PLAYING\<close> after a restart and \<open>START\<close> at the start. On a fair
  sequence of draws both of them complete, and the draws they leave are fair again, so
  that every later restart completes too. On any sequence of draws they raise no
  exception, and the session is fresh whenever they complete. (One search for a spawn
  position ends exactly when a pair of draws still to come lies outside the safe zone,
  \<open>spawn_position_returns_iff\<close>; otherwise the loop of \<^verbatim>\<open>reset_game\<close> runs on.)
\<close>

theorem restart_gives_fresh_session:
  "(state w = GAME_OVER \<and> rng_fair (rng w) \<longrightarrow>
      (\<exists>w'. handle_event L (KEYDOWN K_r) w = Some (Inr w') \<and>
         fresh_session w' \<and> state w' = PLAYING \<and> rng_fair (rng w'))) \<and>
   (rng_fair g \<longrightarrow>
      (\<exists>w'. startup L objs g t = Some (Inr w') \<and>
         fresh_session w' \<and> state w' = START \<and> rng_fair (rng w'))) \<and>
   (state w = GAME_OVER \<and> handle_event L (KEYDOWN K_r) w = Some (Inr w') \<longrightarrow>
      fresh_session w' \<and> state w' = PLAYING) \<and>
   (startup L objs g t = Some (Inr w') \<longrightarrow> fresh_session w' \<and> state w' = START) \<and>
   (state w = GAME_OVER \<longrightarrow> handle_event L (KEYDOWN K_r) w \<noteq> Some (Inl e)) \<and>
   startup L objs g t \<noteq> Some (Inl e)"
proof (intro conjI impI)
  assume h: "state w = GAME_OVER \<and> rng_fair (rng w)"
  then obtain w1 where w1: "handle_event L (KEYDOWN K_r) w = Some (Inr w1)" "rng_fair (rng w1)"
    using restart_returns[of w L] by blast
  then show "\<exists>w'. handle_event L (KEYDOWN K_r) w = Some (Inr w') \<and>
         fresh_session w' \<and> state w' = PLAYING \<and> rng_fair (rng w')"
    using restart_fresh_if_returns[of w L w1] h by blast
next
  assume "rng_fair g"
  then obtain w1 where w1: "startup L objs g t = Some (Inr w1)" "rng_fair (rng w1)"
    using startup_returns[of g L objs t] by blast
  then show "\<exists>w'. startup L objs g t = Some (Inr w') \<and>
         fresh_session w' \<and> state w' = START \<and> rng_fair (rng w')"
    using startup_fresh_if_returns[of L objs g t w1] by blast
next
  assume h: "state w = GAME_OVER \<and> handle_event L (KEYDOWN K_r) w = Some (Inr w')"
  then show "fresh_session w'" "state w' = PLAYING"
    using restart_fresh_if_returns[of w L w'] by simp_all
next
  assume "startup L objs g t = Some (Inr w')"
  then show "fresh_session w'" "state w' = START"
    using startup_fresh_if_returns[of L objs g t w'] by simp_all
next
  assume "state w = GAME_OVER"
  then show "handle_event L (KEYDOWN K_r) w \<noteq> Some (Inl e)" by (rule restart_never_raises)
next
  show "startup L objs g t \<noteq> Some (Inl e)" by (rule startup_never_raises)
qed

text \<open>
  The restart on the sample draws: the first pair drawn is the player's position, which
  is rejected, and the search goes on to the next pair.
\<close>

theorem restart_gives_fresh_session_witness:
  "state sample_game_over = GAME_OVER \<and> score sample_game_over = 60 \<and>
   bullets sample_game_over = [1, 2] \<and>
   safe_draws sample_rng = False \<and> rng_fair sample_rng \<and>
   (\<exists>w'. handle_event sample_pygame (KEYDOWN K_r) sample_game_over = Some (Inr w') \<and>
      fresh_session w' \<and> state w' = PLAYING) \<and>
   (\<exists>w'. startup sample_pygame (sample_asteroid (0, 0) 1, sample_bullet (0, 0)) sample_rng
            (sconst 0) = Some (Inr w') \<and>
      fresh_session w' \<and> state w' = START)"
proof -
  have s: "state sample_game_over = GAME_OVER" "score sample_game_over = 60"
    "bullets sample_game_over = [1, 2]" "rng sample_game_over = sample_rng"
    by (simp_all add: sample_game_over_def sample_world_def)
  show ?thesis
    using restart_gives_fresh_session[where w = sample_game_over and L = sample_pygame
        and g = sample_rng and objs = "(sample_asteroid (0, 0) 1, sample_bullet (0, 0))"
        and t = "sconst 0"]
      s sample_rng_fair sample_rng_first
    by simp blast
qed

subsection \<open>One iteration of the main loop\<close>

lemma GameObject_update_keeps:
  "velocity (GameObject_update L s) = velocity s"
  "game_object.more (GameObject_update L s) = game_object.more s"
  by (simp_all add: GameObject_update_def Let_def)

lemma GameObject_update_size: "size_tier (GameObject_update L a) = size_tier a"
  by (simp add: GameObject_update_def Let_def)

lemma GameObject_update_player:
  "max_speed (GameObject_update L p) = max_speed p"
  "shot_cooldown (GameObject_update L p) = shot_cooldown p"
  "last_shot_time (GameObject_update L p) = last_shot_time p"
  by (simp_all add: GameObject_update_def Let_def)

lemma update_sprites_effect:
  "asteroids (update_sprites L rs w) = asteroids w \<and>
   next_ref (update_sprites L rs w) = next_ref w \<and>
   score (update_sprites L rs w) = score w \<and>
   state (update_sprites L rs w) = state w \<and>
   running (update_sprites L rs w) = running w \<and>
   (\<forall>a. size_tier (ast_objs (update_sprites L rs w) a) = size_tier (ast_objs w a)) \<and>
   set (bullets (update_sprites L rs w)) \<subseteq> set (bullets w) \<and>
   set (all_sprites (update_sprites L rs w)) \<subseteq> set (all_sprites w) \<and>
   velocity (player (update_sprites L rs w)) = velocity (player w) \<and>
   max_speed (player (update_sprites L rs w)) = max_speed (player w)"
proof (induction L rs w rule: update_sprites.induct)
  case (1 L w)
  then show ?case by simp
next
  case (2 L rs w)
  then show ?case by (simp add: GameObject_update_keeps GameObject_update_player)
next
  case (3 L a rs w)
  then show ?case by (simp add: GameObject_update_size)
next
  case (4 L b rs w)
  define s where "s = GameObject_update L (bul_objs w b)"
  define w1 where "w1 = w\<lparr> bul_objs := (bul_objs w)(b := s), ticks := stl (ticks w) \<rparr>"
  define w2 where "w2 = (if shd (ticks w) - spawn_time s > lifetime s then kill_bullet b w1 else w1)"
  have u: "update_sprites L (BulletRef b # rs) w = update_sprites L rs w2"
    by (simp add: Let_def s_def w1_def w2_def)
  have ih: "asteroids (update_sprites L rs w2) = asteroids w2 \<and>
   next_ref (update_sprites L rs w2) = next_ref w2 \<and>
   score (update_sprites L rs w2) = score w2 \<and>
   state (update_sprites L rs w2) = state w2 \<and>
   running (update_sprites L rs w2) = running w2 \<and>
   (\<forall>a. size_tier (ast_objs (update_sprites L rs w2) a) = size_tier (ast_objs w2 a)) \<and>
   set (bullets (update_sprites L rs w2)) \<subseteq> set (bullets w2) \<and>
   set (all_sprites (update_sprites L rs w2)) \<subseteq> set (all_sprites w2) \<and>
   velocity (player (update_sprites L rs w2)) = velocity (player w2) \<and>
   max_speed (player (update_sprites L rs w2)) = max_speed (player w2)"
    using "4.IH"[OF refl refl refl] unfolding w2_def w1_def s_def by simp
  have w2: "asteroids w2 = asteroids w" "next_ref w2 = next_ref w" "score w2 = score w"
    "state w2 = state w" "running w2 = running w" "ast_objs w2 = ast_objs w"
    "set (bullets w2) \<subseteq> set (bullets w)" "set (all_sprites w2) \<subseteq> set (all_sprites w)"
    "player w2 = player w"
    by (auto simp: w2_def w1_def kill_bullet_def)
  show ?case unfolding u using ih w2 by auto
qed

lemma world_ok_update_all:
  assumes "world_ok w"
  shows "world_ok (update_all L w)"
proof -
  note e = update_sprites_effect[of L "all_sprites w" w]
  have ra: "ref_allocated (update_all L w) = ref_allocated w"
    using e by (auto simp: fun_eq_iff ref_allocated_def update_all_def split: sprite_ref.splits)
  show ?thesis
    using assms e unfolding world_ok_def list_all_iff ra
    by (auto simp: update_all_def)
qed

lemma world_ok_player: "world_ok (w\<lparr> player := p \<rparr>) = world_ok w"
proof -
  have "ref_allocated (w\<lparr> player := p \<rparr>) = ref_allocated w"
    by (auto simp: fun_eq_iff ref_allocated_def split: sprite_ref.splits)
  then show ?thesis by (simp add: world_ok_def)
qed

lemma move_sprites_effect:
  assumes "max_speed (player w) = 6"
  shows "\<exists>w1. move_sprites L keys d w = Inr w1
       \<and> score w1 = score w \<and> state w1 = state w \<and> running w1 = running w
       \<and> max_speed (player w1) = 6
       \<and> (vlength (velocity (player w)) \<le> 6 \<or> keys K_UP \<longrightarrow> vlength (velocity (player w1)) \<le> 6)
       \<and> (world_ok w \<longrightarrow> world_ok w1)"
proof -
  obtain p where h: "handle_input L keys d (player w) = Inr p" and m: "max_speed p = 6"
    and v: "vlength (velocity (player w)) \<le> 6 \<or> keys K_UP \<longrightarrow> vlength (velocity p) \<le> 6"
    using handle_input_effect[OF assms, of L keys d] by blast
  define w1 where "w1 = update_all L (w\<lparr> player := p \<rparr>)"
  note e = update_sprites_effect[of L "all_sprites (w\<lparr> player := p \<rparr>)" "w\<lparr> player := p \<rparr>"]
  have "move_sprites L keys d w = Inr w1" by (simp add: move_sprites_def h w1_def)
  moreover have "score w1 = score w \<and> state w1 = state w \<and> running w1 = running w"
    using e by (simp add: w1_def update_all_def)
  moreover have "max_speed (player w1) = 6" using e m by (simp add: w1_def update_all_def)
  moreover have "velocity (player w1) = velocity p" using e by (simp add: w1_def update_all_def)
  moreover have "world_ok w \<longrightarrow> world_ok w1"
    using world_ok_update_all[of "w\<lparr> player := p \<rparr>" L] by (simp add: w1_def world_ok_player)
  ultimately show ?thesis using v by auto
qed

lemma fire_effect:
  "score (fire L w) = score w \<and> state (fire L w) = state w \<and> running (fire L w) = running w
   \<and> asteroids (fire L w) = asteroids w \<and> ast_objs (fire L w) = ast_objs w
   \<and> velocity (player (fire L w)) = velocity (player w)
   \<and> max_speed (player (fire L w)) = max_speed (player w)
   \<and> (world_ok w \<longrightarrow> world_ok (fire L w))"
proof (cases "can_shoot (player w) (shd (ticks w))")
  case False
  have "ref_allocated (w\<lparr> ticks := stl (ticks w) \<rparr>) = ref_allocated w"
    by (auto simp: fun_eq_iff ref_allocated_def split: sprite_ref.splits)
  then show ?thesis using False by (simp add: fire_def Let_def world_ok_def)
next
  case True
  obtain p bullet where sh: "shoot L (shd (ticks w)) (shd (stl (ticks w))) (player w) = (p, bullet)"
    by (cases "shoot L (shd (ticks w)) (shd (stl (ticks w))) (player w)") auto
  have p: "p = (player w)\<lparr> last_shot_time := shd (ticks w) \<rparr>"
    using sh by (auto simp: shoot_def Let_def)
  define w' where "w' = w\<lparr> ticks := stl (stl (ticks w)), player := p,
      bul_objs := (bul_objs w)(next_ref w := bullet), next_ref := Suc (next_ref w),
      all_sprites := group_add (BulletRef (next_ref w)) (all_sprites w),
      bullets := group_add (next_ref w) (bullets w) \<rparr>"
  have f: "fire L w = w'" using True sh by (simp add: fire_def Let_def w'_def)
  have ok: "world_ok w \<Longrightarrow> world_ok w'"
    by (auto simp: world_ok_def list_all_iff w'_def group_add_def ref_allocated_def
        split: sprite_ref.splits if_splits)
  show ?thesis unfolding f using ok by (simp add: w'_def p)
qed

lemma world_ok_cong:
  assumes "asteroids w' = asteroids w" "ast_objs w' = ast_objs w" "next_ref w' = next_ref w"
    "all_sprites w' = all_sprites w" "bullets w' = bullets w" "score w' = score w"
  shows "world_ok w' = world_ok w"
proof -
  have "ref_allocated w' = ref_allocated w"
    using assms(3) by (auto simp: fun_eq_iff ref_allocated_def split: sprite_ref.splits)
  then show ?thesis using assms by (simp add: world_ok_def)
qed

lemma reset_game_world_ok:
  assumes "reset_game L w = Some r"
  shows "\<exists>w1. r = Inr (Player_init L (400, 300), 0, w1)
       \<and> world_ok (w1\<lparr> player := Player_init L (400, 300), score := 0, state := s \<rparr>)
       \<and> world_ok (w1\<lparr> player := Player_init L (400, 300), score := 0, state := s,
                        running := True \<rparr>)"
proof -
  obtain w1 where r: "r = Inr (Player_init L (400, 300), 0, w1)"
    and n: "next_ref w1 = next_ref w + 5"
    and fr: "\<forall>i. next_ref w \<le> i \<and> i < next_ref w1 \<longrightarrow>
             size_tier (ast_objs w1 i) = 3
             \<and> 200 < distance_to (pos (ast_objs w1 i)) (400, 300)"
    and a: "asteroids w1 = [next_ref w ..< next_ref w1]"
    and al: "all_sprites w1 = PlayerRef # map AsteroidRef [next_ref w ..< next_ref w1]"
    and b: "bullets w1 = []"
    using reset_game_effect[OF assms] by blast
  have "world_ok (w1\<lparr> score := 0 \<rparr>)"
    using fr by (auto simp: world_ok_def list_all_iff a al b ref_allocated_def)
  moreover have "world_ok (w1\<lparr> player := Player_init L (400, 300), score := 0, state := s \<rparr>)
      = world_ok (w1\<lparr> score := 0 \<rparr>)"
    by (rule world_ok_cong) simp_all
  moreover have "world_ok (w1\<lparr> player := Player_init L (400, 300), score := 0, state := s,
                        running := True \<rparr>) = world_ok (w1\<lparr> score := 0 \<rparr>)"
    by (rule world_ok_cong) simp_all
  ultimately show ?thesis using r by simp
qed

text \<open>What one event does, state by state.\<close>

lemma handle_event_QUIT: "handle_event L QUIT w = Some (Inr (w\<lparr> running := False \<rparr>))"
  by (simp add: handle_event_def)

lemma handle_event_OTHER: "handle_event L (OTHER_EVENT n) w = Some (Inr w)"
  by (simp add: handle_event_def)

lemma handle_event_START:
  "state w = START \<Longrightarrow> handle_event L (KEYDOWN k) w =
     Some (Inr (if k = K_SPACE then w\<lparr> state := PLAYING \<rparr> else w))"
  by (simp add: handle_event_def)

lemma handle_event_PLAYING:
  "state w = PLAYING \<Longrightarrow> handle_event L (KEYDOWN k) w =
     Some (Inr (if k = K_SPACE then fire L w else if k = K_ESCAPE then w\<lparr> state := PAUSED \<rparr>
                else w))"
  by (simp add: handle_event_def)

lemma handle_event_PAUSED:
  "state w = PAUSED \<Longrightarrow> handle_event L (KEYDOWN k) w =
     Some (Inr (if k = K_ESCAPE then w\<lparr> state := PLAYING \<rparr> else w))"
  by (simp add: handle_event_def)

lemma handle_event_GAME_OVER:
  "state w = GAME_OVER \<Longrightarrow> k \<noteq> K_r \<Longrightarrow> handle_event L (KEYDOWN k) w =
     Some (Inr (if k = K_q then w\<lparr> running := False \<rparr> else w))"
  by (simp add: handle_event_def)

lemma handle_event_restart:
  assumes "state w = GAME_OVER" "handle_event L (KEYDOWN K_r) w = Some r"
  shows "\<exists>w1. reset_game L w = Some (Inr (Player_init L (400, 300), 0, w1))
       \<and> r = Inr (w1\<lparr> player := Player_init L (400, 300), score := 0, state := PLAYING \<rparr>)
       \<and> running w1 = running w"
proof -
  obtain r0 where rg: "reset_game L w = Some r0"
    using assms by (cases "reset_game L w") (auto simp: handle_event_def)
  obtain w1 where r0: "r0 = Inr (Player_init L (400, 300), 0, w1)"
    and e: "w1 = w\<lparr> ast_objs := ast_objs w1, next_ref := next_ref w1, rng := rng w1,
                  all_sprites := all_sprites w1, asteroids := asteroids w1, bullets := [] \<rparr>"
    using reset_game_effect[OF rg] by blast
  have "running w1 = running w" by (subst e) simp
  then show ?thesis using assms rg r0 by (simp add: handle_event_def)
qed

lemma handle_event_effect:
  assumes "handle_event L ev w = Some r"
  shows "\<exists>w'. r = Inr w'
     \<and> (world_ok w \<longrightarrow> world_ok w')
     \<and> (max_speed (player w) = 6 \<and> vlength (velocity (player w)) \<le> 6 \<longrightarrow>
          max_speed (player w') = 6 \<and> vlength (velocity (player w')) \<le> 6)
     \<and> (state w \<noteq> GAME_OVER \<longrightarrow> score w' = score w \<and> state w' \<noteq> GAME_OVER)"
proof (cases ev)
  case QUIT
  have "world_ok (w\<lparr> running := False \<rparr>) = world_ok w" by (rule world_ok_cong) simp_all
  then show ?thesis using assms QUIT by (auto simp: handle_event_QUIT)
next
  case (OTHER_EVENT n)
  then show ?thesis using assms by (auto simp: handle_event_OTHER)
next
  case (KEYDOWN k)
  show ?thesis
  proof (cases "state w")
    case START
    have "world_ok (w\<lparr> state := PLAYING \<rparr>) = world_ok w" by (rule world_ok_cong) simp_all
    then show ?thesis using assms KEYDOWN START by (auto simp: handle_event_START)
  next
    case PLAYING
    have "world_ok (w\<lparr> state := PAUSED \<rparr>) = world_ok w" by (rule world_ok_cong) simp_all
    then show ?thesis
      using assms KEYDOWN PLAYING fire_effect[of L w] by (auto simp: handle_event_PLAYING)
  next
    case PAUSED
    have "world_ok (w\<lparr> state := PLAYING \<rparr>) = world_ok w" by (rule world_ok_cong) simp_all
    then show ?thesis using assms KEYDOWN PAUSED by (auto simp: handle_event_PAUSED)
  next
    case GAME_OVER
    show ?thesis
    proof (cases "k = K_r")
      case True
      obtain w1 where rg: "reset_game L w = Some (Inr (Player_init L (400, 300), 0, w1))"
        and r: "r = Inr (w1\<lparr> player := Player_init L (400, 300), score := 0, state := PLAYING \<rparr>)"
        using handle_event_restart[OF GAME_OVER] assms KEYDOWN True by blast
      have "world_ok (w1\<lparr> player := Player_init L (400, 300), score := 0, state := PLAYING \<rparr>)"
        using reset_game_world_ok[OF rg, of PLAYING] by simp
      then show ?thesis
        using r GAME_OVER by (simp add: Player_init_fields vlength_def)
    next
      case False
      have "world_ok (w\<lparr> running := False \<rparr>) = world_ok w" by (rule world_ok_cong) simp_all
      then show ?thesis
        using assms KEYDOWN GAME_OVER False by (auto simp: handle_event_GAME_OVER)
    qed
  qed
qed

lemma handle_events_effect:
  assumes "handle_events L evs w = Some r"
  shows "\<exists>w'. r = Inr w'
     \<and> (world_ok w \<longrightarrow> world_ok w')
     \<and> (max_speed (player w) = 6 \<and> vlength (velocity (player w)) \<le> 6 \<longrightarrow>
          max_speed (player w') = 6 \<and> vlength (velocity (player w')) \<le> 6)
     \<and> (state w \<noteq> GAME_OVER \<longrightarrow> score w' = score w \<and> state w' \<noteq> GAME_OVER)"
  using assms
proof (induction evs arbitrary: w)
  case Nil
  then show ?case by auto
next
  case (Cons ev evs)
  from Cons.prems obtain r1 where h1: "handle_event L ev w = Some r1"
    by (cases "handle_event L ev w") auto
  obtain w1 where r1: "r1 = Inr w1"
    and a: "world_ok w \<longrightarrow> world_ok w1"
       "max_speed (player w) = 6 \<and> vlength (velocity (player w)) \<le> 6 \<longrightarrow>
          max_speed (player w1) = 6 \<and> vlength (velocity (player w1)) \<le> 6"
       "state w \<noteq> GAME_OVER \<longrightarrow> score w1 = score w \<and> state w1 \<noteq> GAME_OVER"
    using handle_event_effect[OF h1] by blast
  have h2: "handle_events L evs w1 = Some r" using Cons.prems h1 r1 by simp
  obtain w' where r: "r = Inr w'"
    and b: "world_ok w1 \<longrightarrow> world_ok w'"
       "max_speed (player w1) = 6 \<and> vlength (velocity (player w1)) \<le> 6 \<longrightarrow>
          max_speed (player w') = 6 \<and> vlength (velocity (player w')) \<le> 6"
       "state w1 \<noteq> GAME_OVER \<longrightarrow> score w' = score w1 \<and> state w' \<noteq> GAME_OVER"
    using Cons.IH[OF h2] by blast
  show ?case using r a b by auto
qed

lemma move_sprites_frame:
  assumes "move_sprites L keys d w = Inr w1"
  shows "score w1 = score w \<and> state w1 = state w \<and> running w1 = running w
       \<and> (world_ok w \<longrightarrow> world_ok w1)"
proof -
  obtain p where w1: "w1 = update_all L (w\<lparr> player := p \<rparr>)"
    using assms by (auto simp: move_sprites_def split: sum.splits)
  note e = update_sprites_effect[of L "all_sprites (w\<lparr> player := p \<rparr>)" "w\<lparr> player := p \<rparr>"]
  have "world_ok w \<longrightarrow> world_ok w1"
    using world_ok_update_all[of "w\<lparr> player := p \<rparr>" L] by (simp add: w1 world_ok_player)
  then show ?thesis using e by (simp add: w1 update_all_def)
qed


lemma world_ok_score_le:
  assumes "world_ok w"
  shows "0 \<le> (\<Sum>b\<leftarrow>bullets w. \<Sum>a\<leftarrow>hits_of L w b. 10 * size_tier (ast_objs w a))"
proof (intro sum_list_nonneg)
  fix x assume "x \<in> set (map (\<lambda>b. \<Sum>a\<leftarrow>hits_of L w b. 10 * size_tier (ast_objs w a)) (bullets w))"
  then obtain b where x: "x = (\<Sum>a\<leftarrow>hits_of L w b. 10 * size_tier (ast_objs w a))" by auto
  show "0 \<le> x" unfolding x
  proof (intro sum_list_nonneg)
    fix y assume "y \<in> set (map (\<lambda>a. 10 * size_tier (ast_objs w a)) (hits_of L w b))"
    then obtain a where "a \<in> set (hits_of L w b)" and y: "y = 10 * size_tier (ast_objs w a)"
      by auto
    then have "a \<in> set (asteroids w)" by (simp add: hits_of_def spritecollide_def)
    from world_ok_asteroid[OF assms this] have "0 \<le> size_tier (ast_objs w a)" by auto
    then show "0 \<le> y" unfolding y by simp
  qed
qed

lemma update_logic_effect:
  assumes "world_ok w" "update_logic L keys d w = Inr w'"
  shows "world_ok w' \<and> score w \<le> score w'
     \<and> (state w \<noteq> PLAYING \<longrightarrow> w' = w)
     \<and> (state w = PLAYING \<longrightarrow>
          (\<exists>w1 w2. move_sprites L keys d w = Inr w1 \<and> score w1 = score w \<and> world_ok w1
             \<and> bullet_hits L w1 = Inr w2
             \<and> score w' = score w1
                  + (\<Sum>b\<leftarrow>bullets w1. \<Sum>a\<leftarrow>hits_of L w1 b. 10 * size_tier (ast_objs w1 a))
             \<and> w' = (if spritecollideany L w2 then w2\<lparr> state := GAME_OVER \<rparr> else w2)
             \<and> state w2 = PLAYING \<and> player w2 = player w1))"
proof (cases "state w = PLAYING")
  case False
  then show ?thesis using assms by (simp add: update_logic_def)
next
  case True
  from assms(2) True obtain w1 where m: "move_sprites L keys d w = Inr w1"
    by (auto simp: update_logic_def split: sum.splits)
  note f = move_sprites_frame[OF m]
  have ok1: "world_ok w1" using f assms(1) by simp
  obtain w2 where b: "bullet_hits L w1 = Inr w2"
    and sc: "score w2 = score w1
          + (\<Sum>b\<leftarrow>bullets w1. \<Sum>a\<leftarrow>hits_of L w1 b. 10 * size_tier (ast_objs w1 a))"
    and st: "state w2 = state w1" and pl: "player w2 = player w1" and ok2: "world_ok w2"
    using bullet_hits_effect[OF ok1, of L] by blast
  have w': "w' = (if spritecollideany L w2 then w2\<lparr> state := GAME_OVER \<rparr> else w2)"
    using assms(2) True m b by (simp add: update_logic_def split: if_splits)
  have "world_ok (w2\<lparr> state := GAME_OVER \<rparr>) = world_ok w2" by (rule world_ok_cong) simp_all
  then have okw: "world_ok w'" using ok2 by (simp add: w')
  have scw: "score w' = score w2" by (simp add: w')
  have "score w \<le> score w'" using scw sc f world_ok_score_le[OF ok1, of L] by simp
  then show ?thesis using True m f ok1 b sc st pl w' okw scw by auto
qed

lemma frame_effect:
  assumes "world_ok w" "frame L inp w = Some (Inr w')"
  shows "world_ok w'
     \<and> (max_speed (player w) = 6 \<and> vlength (velocity (player w)) \<le> 6 \<longrightarrow>
          max_speed (player w') = 6 \<and> vlength (velocity (player w')) \<le> 6)
     \<and> (state w \<noteq> GAME_OVER \<longrightarrow> score w \<le> score w')
     \<and> (\<exists>w0. handle_events L (events inp) w = Some (Inr w0)
            \<and> (state w \<noteq> GAME_OVER \<longrightarrow> score w0 = score w \<and> state w0 \<noteq> GAME_OVER)
            \<and> world_ok w0
            \<and> update_logic L (pressed inp) (dt inp) w0 = Inr w')"
proof -
  from assms(2) obtain r0 where h: "handle_events L (events inp) w = Some r0"
    by (cases "handle_events L (events inp) w") (auto simp: frame_def)
  obtain w0 where r0: "r0 = Inr w0" and ok0: "world_ok w0"
    and sp0: "max_speed (player w) = 6 \<and> vlength (velocity (player w)) \<le> 6 \<longrightarrow>
          max_speed (player w0) = 6 \<and> vlength (velocity (player w0)) \<le> 6"
    and sc0: "state w \<noteq> GAME_OVER \<longrightarrow> score w0 = score w \<and> state w0 \<noteq> GAME_OVER"
    using handle_events_effect[OF h] assms(1) by blast
  have r: "update_logic L (pressed inp) (dt inp) w0 = Inr w'"
    using assms(2) h r0 by (simp add: frame_def)
  note e = update_logic_effect[OF ok0 r]
  have okw: "world_ok w'" using e by blast
  have le: "score w0 \<le> score w'" using e by blast
  have sp: "max_speed (player w') = 6 \<and> vlength (velocity (player w')) \<le> 6"
    if m: "max_speed (player w0) = 6" and v: "vlength (velocity (player w0)) \<le> 6"
  proof (cases "state w0 = PLAYING")
    case False
    then have "w' = w0" using e by blast
    then show ?thesis using m v by simp
  next
    case True
    obtain w1 where m1: "move_sprites L (pressed inp) (dt inp) w0 = Inr w1"
      and ms: "max_speed (player w1) = 6" "vlength (velocity (player w1)) \<le> 6"
      using move_sprites_effect[OF m, of L "pressed inp" "dt inp"] v by blast
    obtain w1' w2 where m1': "move_sprites L (pressed inp) (dt inp) w0 = Inr w1'"
      and w': "w' = (if spritecollideany L w2 then w2\<lparr> state := GAME_OVER \<rparr> else w2)"
      and pl: "player w2 = player w1'"
      using e True by blast
    have "w1' = w1" using m1 m1' by simp
    then show ?thesis using w' pl ms by simp
  qed
  have c2: "max_speed (player w) = 6 \<and> vlength (velocity (player w)) \<le> 6 \<longrightarrow>
          max_speed (player w') = 6 \<and> vlength (velocity (player w')) \<le> 6"
    using sp sp0 by blast
  have c3: "state w \<noteq> GAME_OVER \<longrightarrow> score w \<le> score w'" using le sc0 by auto
  show ?thesis using okw c2 c3 h r0 sc0 ok0 r by blast
qed








lemma run_frames_invariant:
  assumes "world_ok w" "max_speed (player w) = 6" "vlength (velocity (player w)) \<le> 6"
    "run_frames L inps w = Some (Inr w')"
  shows "world_ok w' \<and> max_speed (player w') = 6 \<and> vlength (velocity (player w')) \<le> 6"
  using assms
proof (induction inps arbitrary: w)
  case Nil
  then show ?case by simp
next
  case (Cons inp inps)
  show ?case
  proof (cases "running w")
    case False
    then show ?thesis using Cons.prems by simp
  next
    case True
    then obtain w1 where f: "frame L inp w = Some (Inr w1)"
      and r: "run_frames L inps w1 = Some (Inr w')"
      using Cons.prems(4) by (auto split: option.splits sum.splits)
    have "world_ok w1 \<and> max_speed (player w1) = 6 \<and> vlength (velocity (player w1)) \<le> 6"
      using frame_effect[OF Cons.prems(1) f] Cons.prems(2,3) by blast
    then show ?thesis using Cons.IH[OF _ _ _ r] by blast
  qed
qed

lemma startup_invariant:
  assumes "startup L objs g t = Some (Inr w0)"
  shows "world_ok w0 \<and> max_speed (player w0) = 6 \<and> vlength (velocity (player w0)) \<le> 6"
proof -
  define wi where "wi = \<lparr> ast_objs = (\<lambda>_. fst objs), bul_objs = (\<lambda>_. snd objs), next_ref = 0,
                 rng = g, ticks = t, all_sprites = [], asteroids = [], bullets = [],
                 player = Player_init L (0, 0), score = 0, state = START, running = True \<rparr>"
  from assms obtain r where rg: "reset_game L wi = Some r"
    by (cases "reset_game L wi") (auto simp: startup_def Let_def wi_def)
  obtain w1 where r: "r = Inr (Player_init L (400, 300), 0, w1)"
    and ok: "world_ok (w1\<lparr> player := Player_init L (400, 300), score := 0, state := START,
                        running := True \<rparr>)"
    using reset_game_world_ok[OF rg, of START] by blast
  have "w0 = w1\<lparr> player := Player_init L (400, 300), score := 0, state := START,
                        running := True \<rparr>"
    using assms rg r by (simp add: startup_def Let_def wi_def[symmetric])
  then show ?thesis using ok by (simp add: Player_init_fields vlength_def)
qed

text \<open>
  Claim C3. \<^verbatim>\<open>handle_input\<close> keeps the speed within \<^verbatim>\<open>max_speed = 6\<close>: for a player
  whose velocity has length at most 6 it returns a player whose velocity has length at
  most 6, for every combination of held keys and every time step. Hence the bound holds
  for the player after any number of iterations of the main loop from the start of the
  program, whatever the inputs are. (Lengths are taken over the reals.)
\<close>

theorem speed_clamp:
  "(max_speed self = 6 \<and> vlength (velocity self) \<le> 6 \<longrightarrow>
      (\<exists>self'. handle_input L keys d self = Inr self' \<and>
         vlength (velocity self') \<le> 6 \<and> max_speed self' = 6)) \<and>
   (\<forall>w0 w'. startup L objs g t = Some (Inr w0) \<and> run_frames L inps w0 = Some (Inr w') \<longrightarrow>
      vlength (velocity (player w')) \<le> 6)"
proof (intro conjI allI impI)
  assume "max_speed self = 6 \<and> vlength (velocity self) \<le> 6"
  then show "\<exists>self'. handle_input L keys d self = Inr self' \<and>
         vlength (velocity self') \<le> 6 \<and> max_speed self' = 6"
    using handle_input_effect[of self L keys d] by blast
next
  fix w0 w'
  assume h: "startup L objs g t = Some (Inr w0) \<and> run_frames L inps w0 = Some (Inr w')"
  then have i: "world_ok w0" "max_speed (player w0) = 6" "vlength (velocity (player w0)) \<le> 6"
    using startup_invariant[of L objs g t w0] by simp_all
  show "vlength (velocity (player w')) \<le> 6"
    using run_frames_invariant[OF i, of L inps w'] h by simp
qed

theorem speed_clamp_witness:
  "\<exists>self'. handle_input sample_pygame (\<lambda>k. True) (1 / 60) (Player_init sample_pygame (400, 300))
      = Inr self' \<and> vlength (velocity self') \<le> 6 \<and> max_speed self' = 6"
  using speed_clamp[of "Player_init sample_pygame (400, 300)" sample_pygame "\<lambda>k. True" "1 / 60"]
  by (simp add: Player_init_fields vlength_def)

text \<open>
  One iteration on the sample state: nothing is pressed, the sprites move, and both
  bullets still overlap the asteroid.
\<close>

lemma sample_world_moved:
  "\<exists>w1. move_sprites sample_pygame (\<lambda>k. False) 0 sample_world = Inr w1 \<and>
     bullets w1 = [1, 2] \<and> asteroids w1 = [0] \<and> score w1 = 0 \<and> next_ref w1 = 3 \<and>
     hits_of sample_pygame w1 (Suc 0) = [0] \<and> hits_of sample_pygame w1 2 = [0] \<and>
     hit_count sample_pygame w1 0 = 2 \<and>
     size_tier (ast_objs w1 0) = 3"
  by (simp add: move_sprites_def handle_input_def update_all_def sample_world_def Let_def
      Player_init_def GameObject_init_def GameObject_update_def sample_pygame_def
      sample_asteroid_def sample_bullet_def hits_of_def hit_count_def spritecollide_def
      kill_bullet_def wrap_position_def py_mod_def vadd_def vscale_def SCREEN_WIDTH_def
      SCREEN_HEIGHT_def game_object.defs player.defs)

text \<open>
  Claim C6. In a state the loop reaches, with the game in \<open>PLAYING\<close>: the score is not
  negative; handling events and moving the sprites leave it as it is; the collision
  handling adds, for every bullet and every asteroid that bullet overlaps, ten times the
  asteroid's size, and nothing else. An asteroid of size \<open>s\<close> that \<open>k\<close> bullets overlap
  so adds \<open>10 * s * k\<close>: 30 for a size-3 asteroid under one bullet, 60 under two. An
  iteration of the main loop that starts in \<open>PLAYING\<close> never lowers the score: it leaves
  the score unchanged if the events end the play (pause), and adds the points of that
  frame's overlaps otherwise. The state after the iteration is again one the loop reaches.
\<close>

theorem score_monotone:
  assumes "world_ok w" "state w = PLAYING"
  shows "0 \<le> score w \<and>
    (\<forall>w0. handle_events L evs w = Some (Inr w0) \<longrightarrow> score w0 = score w) \<and>
    (\<forall>w1. move_sprites L keys d w = Inr w1 \<longrightarrow> score w1 = score w) \<and>
    (\<exists>w2. bullet_hits L w = Inr w2 \<and>
       score w2 = score w
         + (\<Sum>b\<leftarrow>bullets w. \<Sum>a\<leftarrow>hits_of L w b. 10 * size_tier (ast_objs w a)) \<and>
       score w2 = score w
         + (\<Sum>a\<leftarrow>asteroids w. 10 * size_tier (ast_objs w a) * int (hit_count L w a)) \<and>
       score w \<le> score w2) \<and>
    (\<forall>w'. frame L inp w = Some (Inr w') \<longrightarrow>
       0 \<le> score w' \<and> score w \<le> score w' \<and> world_ok w' \<and>
       (\<exists>w0. handle_events L (events inp) w = Some (Inr w0) \<and> score w0 = score w \<and>
          (state w0 \<noteq> PLAYING \<longrightarrow> score w' = score w) \<and>
          (state w0 = PLAYING \<longrightarrow>
             (\<exists>w1. move_sprites L (pressed inp) (dt inp) w0 = Inr w1 \<and>
                score w' = score w
                  + (\<Sum>b\<leftarrow>bullets w1. \<Sum>a\<leftarrow>hits_of L w1 b. 10 * size_tier (ast_objs w1 a))))))"
proof (intro conjI allI impI)
  show "0 \<le> score w" using assms(1) by (simp add: world_ok_def)
next
  fix w0 assume "handle_events L evs w = Some (Inr w0)"
  then show "score w0 = score w" using handle_events_effect assms(2) by fastforce
next
  fix w1 assume "move_sprites L keys d w = Inr w1"
  then show "score w1 = score w" using move_sprites_frame by blast
next
  obtain w2 where b: "bullet_hits L w = Inr w2"
    and sc: "score w2 = score w
          + (\<Sum>b\<leftarrow>bullets w. \<Sum>a\<leftarrow>hits_of L w b. 10 * size_tier (ast_objs w a))"
    and sa: "score w2 = score w
          + (\<Sum>a\<leftarrow>asteroids w. 10 * size_tier (ast_objs w a) * int (hit_count L w a))"
    using bullet_hits_effect[OF assms(1), of L] by blast
  have "score w \<le> score w2" using sc world_ok_score_le[OF assms(1), of L] by simp
  then show "\<exists>w2. bullet_hits L w = Inr w2 \<and>
       score w2 = score w
         + (\<Sum>b\<leftarrow>bullets w. \<Sum>a\<leftarrow>hits_of L w b. 10 * size_tier (ast_objs w a)) \<and>
       score w2 = score w
         + (\<Sum>a\<leftarrow>asteroids w. 10 * size_tier (ast_objs w a) * int (hit_count L w a)) \<and>
       score w \<le> score w2"
    using b sc sa by blast
next
  fix w' assume f: "frame L inp w = Some (Inr w')"
  note e = frame_effect[OF assms(1) f]
  have ok: "world_ok w'" using e by blast
  show "world_ok w'" by (rule ok)
  show "0 \<le> score w'" using ok by (simp add: world_ok_def)
  show "score w \<le> score w'" using e assms(2) by auto
  obtain w0 where h: "handle_events L (events inp) w = Some (Inr w0)"
    and s0: "score w0 = score w" and ok0: "world_ok w0"
    and u: "update_logic L (pressed inp) (dt inp) w0 = Inr w'"
    using e assms(2) by auto
  note ul = update_logic_effect[OF ok0 u]
  have a: "state w0 \<noteq> PLAYING \<longrightarrow> score w' = score w" using ul s0 by auto
  have b: "state w0 = PLAYING \<longrightarrow>
             (\<exists>w1. move_sprites L (pressed inp) (dt inp) w0 = Inr w1 \<and>
                score w' = score w
                  + (\<Sum>b\<leftarrow>bullets w1. \<Sum>a\<leftarrow>hits_of L w1 b. 10 * size_tier (ast_objs w1 a)))"
  proof
    assume "state w0 = PLAYING"
    then obtain w1 where "move_sprites L (pressed inp) (dt inp) w0 = Inr w1" "score w1 = score w0"
      "score w' = score w1
                  + (\<Sum>b\<leftarrow>bullets w1. \<Sum>a\<leftarrow>hits_of L w1 b. 10 * size_tier (ast_objs w1 a))"
      using ul by blast
    then show "\<exists>w1. move_sprites L (pressed inp) (dt inp) w0 = Inr w1 \<and>
                score w' = score w
                  + (\<Sum>b\<leftarrow>bullets w1. \<Sum>a\<leftarrow>hits_of L w1 b. 10 * size_tier (ast_objs w1 a))"
      using s0 by auto
  qed
  show "\<exists>w0. handle_events L (events inp) w = Some (Inr w0) \<and> score w0 = score w \<and>
          (state w0 \<noteq> PLAYING \<longrightarrow> score w' = score w) \<and>
          (state w0 = PLAYING \<longrightarrow>
             (\<exists>w1. move_sprites L (pressed inp) (dt inp) w0 = Inr w1 \<and>
                score w' = score w
                  + (\<Sum>b\<leftarrow>bullets w1. \<Sum>a\<leftarrow>hits_of L w1 b. 10 * size_tier (ast_objs w1 a))))"
    using h s0 a b by blast
qed


theorem score_monotone_witness:
  "0 \<le> score sample_world \<and>
   (\<exists>w2. bullet_hits sample_pygame sample_world = Inr w2 \<and>
      score w2 = score sample_world
         + (\<Sum>b\<leftarrow>bullets sample_world. \<Sum>a\<leftarrow>hits_of sample_pygame sample_world b.
               10 * size_tier (ast_objs sample_world a)) \<and>
      score w2 = score sample_world
         + (\<Sum>a\<leftarrow>asteroids sample_world.
               10 * size_tier (ast_objs sample_world a)
                 * int (hit_count sample_pygame sample_world a)) \<and>
      score sample_world \<le> score w2)"
proof -
  have s: "state sample_world = PLAYING" by (simp add: sample_world_def)
  show ?thesis
    using score_monotone[OF sample_world_ok s, of sample_pygame "[]" "\<lambda>k. False" 0
        "\<lparr> events = [], pressed = (\<lambda>k. False), dt = 0 \<rparr>"]
    by blast
qed

text \<open>
  One iteration of the main loop in which a single asteroid of size 3 is destroyed, the
  only one there is, and the score rises by 60.
\<close>

theorem score_double_count_counterexample:
  "state sample_world = PLAYING \<and> score sample_world = 0 \<and>
   asteroids sample_world = [0] \<and> size_tier (ast_objs sample_world 0) = 3 \<and>
   (\<exists>w'. frame sample_pygame \<lparr> events = [], pressed = (\<lambda>k. False), dt = 0 \<rparr> sample_world
            = Some (Inr w') \<and>
      score w' = 60 \<and> 0 \<notin> set (asteroids w') \<and> bullets w' = [])"
proof -
  have v: "state sample_world = PLAYING" "score sample_world = 0"
    "asteroids sample_world = [0]" "size_tier (ast_objs sample_world 0) = 3"
    by (simp_all add: sample_world_def sample_asteroid_def)
  obtain w1 where m: "move_sprites sample_pygame (\<lambda>k. False) 0 sample_world = Inr w1"
    and b1: "bullets w1 = [1, 2]" and a1: "asteroids w1 = [0]" and s1: "score w1 = 0"
    and n1: "next_ref w1 = 3"
    and h1: "hits_of sample_pygame w1 (Suc 0) = [0]" "hits_of sample_pygame w1 2 = [0]"
    and c1: "hit_count sample_pygame w1 0 = 2"
    and z1: "size_tier (ast_objs w1 0) = 3"
    using sample_world_moved by blast
  have ms: "max_speed (player sample_world) = 6"
    by (simp add: sample_world_def Player_init_fields)
  have ok1: "world_ok w1"
    using move_sprites_effect[OF ms, of sample_pygame "\<lambda>k. False" 0] m sample_world_ok by auto
  obtain w2 where bh: "bullet_hits sample_pygame w1 = Inr w2"
    and sc: "score w2 = score w1
          + (\<Sum>b\<leftarrow>bullets w1. \<Sum>a\<leftarrow>hits_of sample_pygame w1 b. 10 * size_tier (ast_objs w1 a))"
    and as: "asteroids w2 = filter (\<lambda>a. hit_count sample_pygame w1 a = 0) (asteroids w1)
                        @ [next_ref w1 ..< next_ref w2]"
    and bs: "bullets w2 = filter (\<lambda>b. hits_of sample_pygame w1 b = []) (bullets w1)"
    using bullet_hits_effect[OF ok1, of sample_pygame] by blast
  have s2: "score w2 = 60" using sc by (simp add: b1 h1 z1 s1)
  have a2: "0 \<notin> set (asteroids w2)" using as by (simp add: a1 c1 n1)
  have b2: "bullets w2 = []" using bs by (simp add: b1 h1)
  define w' where "w' = (if spritecollideany sample_pygame w2 then w2\<lparr> state := GAME_OVER \<rparr> else w2)"
  have f: "frame sample_pygame \<lparr> events = [], pressed = (\<lambda>k. False), dt = 0 \<rparr> sample_world
      = Some (Inr w')"
    by (simp add: frame_def update_logic_def v m bh w'_def)
  have "score w' = 60 \<and> 0 \<notin> set (asteroids w') \<and> bullets w' = []"
    using s2 a2 b2 by (simp add: w'_def)
  then show ?thesis using v f by blast
qed

end
